theory Spec2Isabelle
  imports Main "HOL-Library.Word" "HOL-Library.Monad_Syntax"
begin

unbundle bit_operations_syntax

section \<open>SAE-PK: C data as HOL data\<close>

text \<open>
  The development follows \<^verbatim>\<open>src/common/sae_pk.c\<close>. Octets are 8-bit words, the 40-bit
  shift registers of the base-32 codec live in 64-bit words as in the C code, and
  \<^verbatim>\<open>size_t\<close> quantities are natural numbers (the one place where the C code guards
  against overflow of \<^verbatim>\<open>size_t\<close> is kept as a guard against \<open>SIZE_MAX\<close>).

  A C string is the list of its characters before the terminating NUL. Reading the
  string at its length yields the terminator.
\<close>

type_synonym u8 = "8 word"
type_synonym u64 = "64 word"

definition SIZE_MAX :: nat where
  "SIZE_MAX = 2 ^ 64 - 1"

text \<open>Arithmetic in \<^verbatim>\<open>size_t\<close> on operands that are \<^verbatim>\<open>size_t\<close> values: it wraps.\<close>

definition size_t_add :: "nat \<Rightarrow> nat \<Rightarrow> nat" where
  "size_t_add a b = (a + b) mod (SIZE_MAX + 1)"

definition size_t_mul :: "nat \<Rightarrow> nat \<Rightarrow> nat" where
  "size_t_mul a b = (a * b) mod (SIZE_MAX + 1)"

definition size_t_sub :: "nat \<Rightarrow> nat \<Rightarrow> nat" where
  "size_t_sub a b = (a + (SIZE_MAX + 1) - b) mod (SIZE_MAX + 1)"

definition NUL :: char where
  "NUL = CHR 0x00"

definition char_at :: "string \<Rightarrow> nat \<Rightarrow> char" where
  "char_at s i = (if i < length s then s ! i else NUL)"

definition os_strlen :: "string \<Rightarrow> nat" where
  "os_strlen s = length (takeWhile (\<lambda>c. c \<noteq> NUL) s)"

text \<open>
  \<^verbatim>\<open>os_strchr(s, c)\<close>: the offset of the first occurrence of \<open>c\<close> in \<open>s\<close>, where the
  terminator counts as part of the string; \<open>None\<close> is the null pointer.
\<close>

fun os_strchr :: "string \<Rightarrow> char \<Rightarrow> nat option" where
  "os_strchr [] c = (if c = NUL then Some 0 else None)"
| "os_strchr (x # xs) c = (if x = c then Some 0 else map_option Suc (os_strchr xs c))"

section \<open>Base-32 alphabet and password validation\<close>

definition sae_pk_base32_table :: string where
  "sae_pk_base32_table = ''abcdefghijklmnopqrstuvwxyz234567''"

text \<open>
  The \<^verbatim>\<open>for (pos = 0; pw[pos]; pos++)\<close> loop of \<^verbatim>\<open>sae_pk_valid_password\<close>.
  \<open>None\<close> is an early \<^verbatim>\<open>return false\<close> from inside the loop, \<open>Some pos\<close> is the value of
  \<^verbatim>\<open>pos\<close> when the loop meets the terminator.
\<close>

function valid_password_loop :: "string \<Rightarrow> nat \<Rightarrow> nat option" where
  "valid_password_loop pw pos =
     (if char_at pw pos = NUL then Some pos
      else if pos \<noteq> 0 \<and> pos mod 5 = 4 then
        (if char_at pw pos \<noteq> CHR ''-'' then None
         else valid_password_loop pw (pos + 1))
      else if os_strchr sae_pk_base32_table (char_at pw pos) = None then None
      else valid_password_loop pw (pos + 1))"
  by pat_completeness auto
termination
  by (relation "measure (\<lambda>(pw, pos). length pw - pos)")
     (auto simp: char_at_def split: if_splits)

declare valid_password_loop.simps [simp del]

definition sae_pk_valid_password :: "string \<Rightarrow> bool" where
  "sae_pk_valid_password pw =
     (if os_strlen pw < 9 then False
      else case valid_password_loop pw 0 of
        None \<Rightarrow> False
      | Some pos \<Rightarrow> if pos = 0 then False else char_at pw (pos - 1) \<noteq> CHR ''-'')"

section \<open>Base-32 encoding and decoding\<close>

text \<open>
  Heap allocation can fail. An allocator is the set of request sizes that succeed; every
  \<^verbatim>\<open>if (!out) return NULL\<close> of the source is a branch on it.
\<close>

type_synonym allocator = "nat \<Rightarrow> bool"

definition alloc_ok :: allocator where
  "alloc_ok n = True"

text \<open>
  \<^verbatim>\<open>add_char(start, pos, idx, bits)\<close>. The output written so far is the list \<open>out\<close>, so
  \<^verbatim>\<open>pos - start\<close> is its length; the updated bit budget is returned with it.
\<close>

definition add_char :: "string \<Rightarrow> u8 \<Rightarrow> nat \<Rightarrow> string \<times> nat" where
  "add_char out idx bits =
     (if bits = 0 then (out, bits)
      else
        let bits' = (if bits > 5 then bits - 5 else 0);
            out' = (if length out mod 5 = 4 then out @ [CHR ''-''] else out)
        in (out' @ [sae_pk_base32_table ! unat idx], bits'))"

text \<open>The inner loop \<^verbatim>\<open>for (j = 7; j >= 0; j--)\<close> over one 40-bit block.\<close>

definition encode_block :: "u64 \<Rightarrow> string \<times> nat \<Rightarrow> string \<times> nat" where
  "encode_block block =
     fold (\<lambda>j (out, left). add_char out (ucast (drop_bit (j * 5) block AND 0x1f)) left)
       [7, 6, 5, 4, 3, 2, 1, 0]"

text \<open>
  One iteration of the outer loop at index \<open>i\<close>; the state is \<open>(block, out, left)\<close>.
  The caller provides \<open>len\<close> readable octets at \<open>src\<close>.
\<close>

definition encode_step :: "u8 list \<Rightarrow> nat \<Rightarrow> nat \<Rightarrow> u64 \<times> string \<times> nat \<Rightarrow> u64 \<times> string \<times> nat" where
  "encode_step src len i st =
     (case st of (block, out, left) \<Rightarrow>
        let val = (if i < len then src ! i else 0);
            block = push_bit 8 block OR ucast val
        in if i mod 5 = 4 then
             (case encode_block block (out, left) of (out', left') \<Rightarrow> (0, out', left'))
           else (block, out, left))"

definition sae_pk_base32_encode :: "allocator \<Rightarrow> u8 list \<Rightarrow> nat \<Rightarrow> string option" where
  "sae_pk_base32_encode os_zalloc src len_bits =
     (let len = ((len_bits + 7) mod (SIZE_MAX + 1)) div 8;
          left = len_bits
      in if len = 0 \<or> len \<ge> SIZE_MAX div 8 then None
         else
           let olen = len * 8 div 5 + 1;
               olen = olen + olen div 4
           in if \<not> os_zalloc (olen + 1) then None
              else
                let extra_pad = (5 - len mod 5) mod 5
                in case fold (encode_step src len) [0..<len + extra_pad] (0, [], left) of
                     (block, out, left) \<Rightarrow> Some out)"

text \<open>
  The decoding table: 256 entries set to \<^verbatim>\<open>0x80\<close>, then the index of every alphabet
  character, then 0 for the padding character.
\<close>

definition dtable :: "char \<Rightarrow> u8" where
  "dtable =
     (fold (\<lambda>i d. d(sae_pk_base32_table ! i := of_nat i))
        [0..<length sae_pk_base32_table] (\<lambda>_. 0x80))
     (CHR ''='' := 0)"

text \<open>
  The second loop of \<^verbatim>\<open>sae_pk_base32_decode\<close>, over the values \<^verbatim>\<open>val\<close> it reads (the
  input followed by \<^verbatim>\<open>extra_pad\<close> padding characters). The state is the shift register,
  the number of characters in it, the padding count and the octets written so far.
  On \<^verbatim>\<open>break\<close> the write position has moved back by \<^verbatim>\<open>pad * 5 / 8\<close>.
\<close>

fun decode_loop :: "string \<Rightarrow> u64 \<Rightarrow> nat \<Rightarrow> nat \<Rightarrow> u8 list \<Rightarrow> u8 list" where
  "decode_loop [] block count pad out = out"
| "decode_loop (val # vals) block count pad out =
     (let tmp = dtable val
      in if tmp = 0x80 then decode_loop vals block count pad out
         else
           let pad = (if val = CHR ''='' then pad + 1 else pad);
               block = push_bit 5 block OR ucast tmp;
               count = count + 1
           in if count = 8 then
                let out = out @
                      [ucast (drop_bit 32 block AND 0xff),
                       ucast (drop_bit 24 block AND 0xff),
                       ucast (drop_bit 16 block AND 0xff),
                       ucast (drop_bit 8 block AND 0xff),
                       ucast (block AND 0xff)]
                in if pad \<noteq> 0 then take (length out - pad * 5 div 8) out
                   else decode_loop vals 0 0 pad out
              else decode_loop vals block count pad out)"

declare decode_loop.simps [simp del]

text \<open>
  \<^verbatim>\<open>sae_pk_base32_decode(src, len, out_len)\<close> on the \<open>len\<close> characters \<open>src\<close>. \<open>None\<close> is
  the null pointer; \<open>Some out\<close> is a buffer with \<^verbatim>\<open>*out_len = length out\<close>.
\<close>

definition sae_pk_base32_decode :: "allocator \<Rightarrow> string \<Rightarrow> u8 list option" where
  "sae_pk_base32_decode os_malloc src =
     (let len = length src;
          count = length (filter (\<lambda>c. dtable c \<noteq> 0x80) src)
      in if count = 0 then None
         else
           let extra_pad = (8 - count mod 8) mod 8;
               olen = (count + extra_pad) div 8 * 5
           in if \<not> os_malloc olen then None
              else Some (decode_loop
                     (map (\<lambda>i. if i \<ge> len then CHR ''='' else src ! i) [0..<len + extra_pad])
                     0 0 0 []))"

section \<open>Session state and collaborators\<close>

text \<open>
  Constants of the headers the source includes. \<open>SAE_PK_M_LEN\<close>, \<open>AES_BLOCK_SIZE\<close>,
  \<open>ETH_ALEN\<close>, \<open>SAE_MAX_HASH_LEN\<close> and the element identifiers are the values of
  \<^verbatim>\<open>sae.h\<close>, \<^verbatim>\<open>aes.h\<close> and \<^verbatim>\<open>ieee802_11_defs.h\<close>; no property below depends on the
  numeric value of an element identifier or of the vendor type.
\<close>

definition SAE_PK_M_LEN :: nat where "SAE_PK_M_LEN = 16"
definition AES_BLOCK_SIZE :: nat where "AES_BLOCK_SIZE = 16"
definition ETH_ALEN :: nat where "ETH_ALEN = 6"
definition SAE_MAX_HASH_LEN :: nat where "SAE_MAX_HASH_LEN = 64"
definition WLAN_EID_VENDOR_SPECIFIC :: u8 where "WLAN_EID_VENDOR_SPECIFIC = 221"
definition WLAN_EID_EXTENSION :: u8 where "WLAN_EID_EXTENSION = 255"
definition WLAN_EID_EXT_FILS_KEY_CONFIRM :: u8 where "WLAN_EID_EXT_FILS_KEY_CONFIRM = 3"
definition WLAN_EID_EXT_FILS_PUBLIC_KEY :: u8 where "WLAN_EID_EXT_FILS_PUBLIC_KEY = 12"
definition SAE_PK_IE_VENDOR_TYPE :: "32 word" where "SAE_PK_IE_VENDOR_TYPE = 0x506f9a1f"

text \<open>
  Opaque handles of the crypto library are represented by plain values: a big number by a
  natural number, a curve point by a pair, a curve by a number, a key by an octet string.
  Nothing is assumed about them; every operation on them is a collaborator below.

  A buffer that the C code keeps as a pointer (or array) with a length field is the list of
  its octets: \<open>kek_len\<close> is \<open>length (tmp_kek tmp)\<close>, and likewise for \<open>ssid\<close>, \<open>pw\<close>, \<open>m\<close>
  and \<open>pubkey\<close>. A null \<^verbatim>\<open>tmp->pw\<close>, \<^verbatim>\<open>tmp->ec\<close>, \<^verbatim>\<open>tmp->ap_pk\<close> or \<^verbatim>\<open>sae->tmp\<close> is \<open>None\<close>.
  Record fields carry the name of their struct as a prefix (\<^verbatim>\<open>sae->pk\<close> is \<open>sae_pk_on\<close>).
\<close>

type_synonym crypto_bignum = nat
type_synonym crypto_ec_point = "nat \<times> nat"
type_synonym crypto_ec = nat
type_synonym crypto_ec_key = "u8 list"

record sae_pk =
  pk_m :: "u8 list"
  pk_key :: crypto_ec_key
  pk_group :: int
  pk_pubkey :: "u8 list"

record sae_temporary_data =
  tmp_ec :: "crypto_ec option"
  tmp_prime_len :: nat
  tmp_own_commit_scalar :: crypto_bignum
  tmp_own_commit_element_ecc :: crypto_ec_point
  tmp_peer_commit_element_ecc :: crypto_ec_point
  tmp_own_addr :: "u8 list"
  tmp_peer_addr :: "u8 list"
  tmp_kek :: "u8 list"
  tmp_ssid :: "u8 list"
  tmp_pw :: "u8 list option"
  tmp_lambda :: nat
  tmp_ap_pk :: "sae_pk option"

record sae_data =
  sae_tmp :: "sae_temporary_data option"
  sae_peer_commit_scalar :: crypto_bignum
  sae_group :: int
  sae_pk_on :: bool

text \<open>
  The services the file calls but does not define. A failing call (negative return or
  null pointer) is \<open>None\<close>. \<open>os_alloc\<close> decides \<^verbatim>\<open>os_malloc\<close>, \<^verbatim>\<open>os_zalloc\<close> and
  \<^verbatim>\<open>wpabuf_alloc\<close>. \<open>get_vendor_ie\<close> returns the octets from the start of the element it
  found to the end of the input, the element lying wholly inside them.
\<close>

record collaborators =
  os_alloc :: allocator
  CONFIG_SHA384 :: bool
  CONFIG_SHA512 :: bool
  sha256_vector :: "u8 list \<Rightarrow> u8 list option"
  sha384_vector :: "u8 list \<Rightarrow> u8 list option"
  sha512_vector :: "u8 list \<Rightarrow> u8 list option"
  crypto_ec_point_to_bin :: "crypto_ec option \<Rightarrow> crypto_ec_point \<Rightarrow> (u8 list \<times> u8 list) option"
  crypto_bignum_to_bin :: "crypto_bignum \<Rightarrow> nat \<Rightarrow> nat \<Rightarrow> u8 list option"
  crypto_ec_key_sign :: "crypto_ec_key \<Rightarrow> u8 list \<Rightarrow> u8 list option"
  crypto_ec_key_parse_pub :: "u8 list \<Rightarrow> crypto_ec_key option"
  crypto_ec_key_group :: "crypto_ec_key \<Rightarrow> int"
  crypto_ec_key_verify_signature :: "crypto_ec_key \<Rightarrow> u8 list \<Rightarrow> u8 list \<Rightarrow> int"
  aes_siv_encrypt :: "u8 list \<Rightarrow> u8 list \<Rightarrow> u8 list option"
  aes_siv_decrypt :: "u8 list \<Rightarrow> u8 list \<Rightarrow> u8 list option"
  get_vendor_ie :: "u8 list \<Rightarrow> 32 word \<Rightarrow> u8 list option"

text \<open>
  A zeroed region of \<open>n\<close> octets into which a collaborator has written \<open>xs\<close> from its start.
\<close>

definition region :: "nat \<Rightarrow> u8 list \<Rightarrow> u8 list" where
  "region n xs = take n (xs @ replicate (n - length xs) 0)"

text \<open>
  Modelled from the spec: the \<^verbatim>\<open>wpabuf\<close> helpers are not in the source file. A buffer has
  a capacity and the octets put so far; its tailroom is what remains. Putting more than
  the tailroom is not an error return: the helper traps, which is \<open>None\<close> here.
\<close>

record wpabuf =
  wb_size :: nat
  wb_data :: "u8 list"

definition wpabuf_len :: "wpabuf \<Rightarrow> nat" where
  "wpabuf_len b = length (wb_data b)"

definition wpabuf_tailroom :: "wpabuf \<Rightarrow> nat" where
  "wpabuf_tailroom b = wb_size b - length (wb_data b)"

definition wpabuf_alloc :: "collaborators \<Rightarrow> nat \<Rightarrow> wpabuf option" where
  "wpabuf_alloc env n = (if os_alloc env n then Some \<lparr>wb_size = n, wb_data = []\<rparr> else None)"

definition wpabuf_put_data :: "wpabuf \<Rightarrow> u8 list \<Rightarrow> wpabuf option" where
  "wpabuf_put_data b xs =
     (if wpabuf_tailroom b < length xs then None
      else Some (b\<lparr>wb_data := wb_data b @ xs\<rparr>))"

definition wpabuf_put_u8 :: "wpabuf \<Rightarrow> u8 \<Rightarrow> wpabuf option" where
  "wpabuf_put_u8 b x = wpabuf_put_data b [x]"

definition wpabuf_put_be32 :: "wpabuf \<Rightarrow> 32 word \<Rightarrow> wpabuf option" where
  "wpabuf_put_be32 b w =
     wpabuf_put_data b [ucast (drop_bit 24 w), ucast (drop_bit 16 w), ucast (drop_bit 8 w), ucast w]"

definition wpabuf_put_buf :: "wpabuf \<Rightarrow> wpabuf \<Rightarrow> wpabuf option" where
  "wpabuf_put_buf dst src = wpabuf_put_data dst (wb_data src)"

text \<open>
  \<^verbatim>\<open>os_memcmp_const(a, b, n)\<close> is zero iff the first \<open>n\<close> octets agree.
\<close>

definition os_memcmp_const :: "u8 list \<Rightarrow> u8 list \<Rightarrow> nat \<Rightarrow> int" where
  "os_memcmp_const a b n = (if take n a = take n b then 0 else 1)"

section \<open>Password binding, hashing and the signed transcript\<close>

text \<open>\<^verbatim>\<open>sae_pk_set_password\<close>: the return value and the updated session.\<close>

definition sae_pk_set_password :: "collaborators \<Rightarrow> sae_data \<Rightarrow> string \<Rightarrow> int \<times> sae_data" where
  "sae_pk_set_password env sae password =
     (let len = os_strlen password
      in case sae_tmp sae of
           None \<Rightarrow> (-1, sae)
         | Some tmp \<Rightarrow>
             if len < 1 then (-1, sae)
             else
               let pw = sae_pk_base32_decode (os_alloc env) (take len password);
                   tmp' = tmp\<lparr>tmp_pw := pw, tmp_lambda := len - len div 5\<rparr>
               in (if pw \<noteq> None then 0 else -1, sae\<lparr>sae_tmp := Some tmp'\<rparr>))"

definition sae_group_2_hash_len :: "int \<Rightarrow> nat" where
  "sae_group_2_hash_len grp =
     (if grp = 19 then 32 else if grp = 20 then 48 else if grp = 21 then 64 else 0)"

definition sae_hash :: "collaborators \<Rightarrow> nat \<Rightarrow> u8 list \<Rightarrow> u8 list option" where
  "sae_hash env hash_len data =
     (if hash_len = 32 then sha256_vector env data
      else if CONFIG_SHA384 env \<and> hash_len = 48 then sha384_vector env data
      else if CONFIG_SHA512 env \<and> hash_len = 64 then sha512_vector env data
      else None)"

text \<open>
  The buffer \<^verbatim>\<open>sig_data\<close> that \<^verbatim>\<open>sae_pk_hash_sig_data\<close> fills before hashing it. \<open>tmp\<close> is
  \<^verbatim>\<open>sae->tmp\<close>, which both callers have checked. The buffer is allocated with exactly the
  size of what is put, so no put can exceed it. \<open>None\<close> is \<^verbatim>\<open>goto fail\<close>.
\<close>

definition sae_pk_sig_data ::
  "collaborators \<Rightarrow> sae_data \<Rightarrow> sae_temporary_data \<Rightarrow> bool \<Rightarrow> u8 list \<Rightarrow> u8 list \<Rightarrow> u8 list option" where
  "sae_pk_sig_data env sae tmp ap m pubkey =
     (let prime_len = tmp_prime_len tmp
      in if \<not> os_alloc env (prime_len * 6 + length m + length pubkey + 2 * ETH_ALEN) then None
         else
           case crypto_ec_point_to_bin env (tmp_ec tmp)
                  (if ap then tmp_own_commit_element_ecc tmp
                   else tmp_peer_commit_element_ecc tmp) of
             None \<Rightarrow> None
           | Some (x1, y1) \<Rightarrow>
           case crypto_ec_point_to_bin env (tmp_ec tmp)
                  (if ap then tmp_peer_commit_element_ecc tmp
                   else tmp_own_commit_element_ecc tmp) of
             None \<Rightarrow> None
           | Some (x2, y2) \<Rightarrow>
           case crypto_bignum_to_bin env
                  (if ap then tmp_own_commit_scalar tmp else sae_peer_commit_scalar sae)
                  prime_len prime_len of
             None \<Rightarrow> None
           | Some s1 \<Rightarrow>
           case crypto_bignum_to_bin env
                  (if ap then sae_peer_commit_scalar sae else tmp_own_commit_scalar tmp)
                  prime_len prime_len of
             None \<Rightarrow> None
           | Some s2 \<Rightarrow>
               Some (region prime_len x1 @ region prime_len y1 @
                     region prime_len x2 @ region prime_len y2 @
                     region prime_len s1 @ region prime_len s2 @
                     m @ pubkey @
                     region ETH_ALEN (if ap then tmp_own_addr tmp else tmp_peer_addr tmp) @
                     region ETH_ALEN (if ap then tmp_peer_addr tmp else tmp_own_addr tmp)))"

text \<open>\<^verbatim>\<open>sae_pk_hash_sig_data\<close>: \<open>Some hash\<close> is return value 0, \<open>None\<close> is \<open>-1\<close>.\<close>

definition sae_pk_hash_sig_data ::
  "collaborators \<Rightarrow> sae_data \<Rightarrow> sae_temporary_data \<Rightarrow> nat \<Rightarrow> bool \<Rightarrow> u8 list \<Rightarrow> u8 list \<Rightarrow>
   u8 list option" where
  "sae_pk_hash_sig_data env sae tmp hash_len ap m pubkey =
     (case sae_pk_sig_data env sae tmp ap m pubkey of
        None \<Rightarrow> None
      | Some sig_data \<Rightarrow> sae_hash env hash_len sig_data)"

section \<open>Building the confirm element\<close>

text \<open>
  What a call of \<^verbatim>\<open>sae_write_confirm_pk\<close> does: it returns a value and leaves the caller's
  buffer in some state, or a \<^verbatim>\<open>wpabuf\<close> put exceeds a buffer and the helper traps.
\<close>

datatype confirm_outcome = Returned int wpabuf | Overflows

definition sae_write_confirm_pk :: "collaborators \<Rightarrow> sae_data \<Rightarrow> wpabuf \<Rightarrow> confirm_outcome" where
  "sae_write_confirm_pk env sae buf =
     (case sae_tmp sae of
        None \<Rightarrow> Returned (-1) buf
      | Some tmp \<Rightarrow>
     (case tmp_ap_pk tmp of
        None \<Rightarrow> Returned 0 buf
      | Some pk \<Rightarrow>
     if length (tmp_kek tmp) \<noteq> 32 \<and> length (tmp_kek tmp) \<noteq> 48 \<and> length (tmp_kek tmp) \<noteq> 64
     then Returned (-1) buf
     else if tmp_ec tmp = None then Returned (-1) buf
     else
       let hash_len = sae_group_2_hash_len (pk_group pk)
       in
     (case sae_pk_hash_sig_data env sae tmp hash_len True (pk_m pk) (pk_pubkey pk) of
        None \<Rightarrow> Returned (-1) buf
      | Some hash \<Rightarrow>
     (case crypto_ec_key_sign env (pk_key pk) hash of
        None \<Rightarrow> Returned (-1) buf
      | Some sig \<Rightarrow>
     (case wpabuf_alloc env (1500 + length sig) of
        None \<Rightarrow> Returned (-1) buf
      | Some elem0 \<Rightarrow>
       let encr_mod_len = length (pk_m pk) + AES_BLOCK_SIZE
       in
     (case wpabuf_put_u8 elem0 (of_nat encr_mod_len) of
        None \<Rightarrow> Overflows
      | Some elem1 \<Rightarrow>
     if wpabuf_tailroom elem1 < encr_mod_len then Overflows
     else
     (case aes_siv_encrypt env (tmp_kek tmp) (pk_m pk) of
        None \<Rightarrow> Returned (-1) buf
      | Some encr_mod \<Rightarrow>
     (case
        do {
          elem2 \<leftarrow> wpabuf_put_data elem1 (region encr_mod_len encr_mod);
          elem3 \<leftarrow> wpabuf_put_u8 elem2 WLAN_EID_EXTENSION;
          elem4 \<leftarrow> wpabuf_put_u8 elem3 (of_nat (2 + length (pk_pubkey pk)));
          elem5 \<leftarrow> wpabuf_put_u8 elem4 WLAN_EID_EXT_FILS_PUBLIC_KEY;
          elem6 \<leftarrow> wpabuf_put_u8 elem5 3;
          elem7 \<leftarrow> wpabuf_put_data elem6 (pk_pubkey pk);
          elem8 \<leftarrow> wpabuf_put_u8 elem7 WLAN_EID_EXTENSION;
          elem9 \<leftarrow> wpabuf_put_u8 elem8 (of_nat (1 + length sig));
          elem10 \<leftarrow> wpabuf_put_u8 elem9 WLAN_EID_EXT_FILS_KEY_CONFIRM;
          wpabuf_put_data elem10 sig
        } of
        None \<Rightarrow> Overflows
      | Some elem \<Rightarrow>
       let extra = 6
       in
     if wpabuf_tailroom elem < extra + wpabuf_len buf then Returned (-1) buf
     else
     (case
        do {
          buf1 \<leftarrow> wpabuf_put_u8 buf WLAN_EID_VENDOR_SPECIFIC;
          buf2 \<leftarrow> wpabuf_put_u8 buf1 (of_nat (4 + wpabuf_len elem));
          buf3 \<leftarrow> wpabuf_put_be32 buf2 SAE_PK_IE_VENDOR_TYPE;
          wpabuf_put_buf buf3 elem
        } of
        None \<Rightarrow> Overflows
      | Some buf' \<Rightarrow> Returned 0 buf')))))))))"

section \<open>Fingerprint check and parsing the confirm element\<close>

text \<open>
  \<^verbatim>\<open>*pos = (*pos >> extra) << extra\<close> on the octet at index \<open>bits / 8\<close> of the hash. The
  operand is promoted to \<^verbatim>\<open>int\<close>, shifted there, and stored back as an octet.
\<close>

definition zero_extra_bits :: "u8 list \<Rightarrow> nat \<Rightarrow> u8 list" where
  "zero_extra_bits hash fingerprint_bits =
     (let extra = 8 - fingerprint_bits mod 8;
          i = fingerprint_bits div 8
      in hash[i := of_int (push_bit extra (drop_bit extra (uint (hash ! i))))])"

text \<open>
  The loop that fills \<^verbatim>\<open>fingerprint_exp\<close> after its \<open>sec\<close> leading zero octets:
  \<^verbatim>\<open>*pos++ = tmp->pw[i] << 2 | next >> 6\<close>, computed in \<^verbatim>\<open>int\<close> and stored as an octet.
\<close>

definition fingerprint_exp_loop :: "u8 list \<Rightarrow> u8 list" where
  "fingerprint_exp_loop pw =
     map (\<lambda>i. let next = (if i + 1 < length pw then pw ! (i + 1) else 0)
              in of_int (push_bit 2 (uint (pw ! i)) OR drop_bit 6 (uint next)))
       [0..<length pw]"

text \<open>
  \<^verbatim>\<open>sae_pk_valid_fingerprint\<close>. \<open>hash\<close> is the digest the hash collaborator produced, of
  \<open>hash_len\<close> octets. \<^verbatim>\<open>fingerprint_bits\<close> is a \<^verbatim>\<open>size_t\<close> computed from the \<^verbatim>\<open>size_t\<close>
  values \<open>sec\<close> and \<open>lambda\<close>, so it wraps. \<^verbatim>\<open>fingerprint_exp\<close> has \<open>sec + pw_len\<close> octets;
  comparing more than that many reads past its end, which C leaves undefined: that
  outcome is \<open>None\<close>.
\<close>

definition sae_pk_valid_fingerprint ::
  "collaborators \<Rightarrow> sae_temporary_data \<Rightarrow> u8 list \<Rightarrow> u8 list \<Rightarrow> int \<Rightarrow> bool option" where
  "sae_pk_valid_fingerprint env tmp m k_ap grp =
     (case tmp_pw tmp of
        None \<Rightarrow> Some False
      | Some pw \<Rightarrow>
          if length pw < 1 then Some False
          else
            let hash_len = sae_group_2_hash_len grp;
                hash_data = tmp_ssid tmp @ m @ k_ap
            in if \<not> os_alloc env (length hash_data) then Some False
               else
                 case sae_hash env hash_len hash_data of
                   None \<Rightarrow> Some False
                 | Some hash \<Rightarrow>
                     let sec = unat (drop_bit 6 (pw ! 0)) + 2;
                         fingerprint_bits =
                           size_t_sub (size_t_add (size_t_mul 8 sec)
                                         (size_t_mul 5 (tmp_lambda tmp))) 2
                     in if fingerprint_bits > hash_len * 8 then Some False
                        else
                          let fingerprint_bytes = (fingerprint_bits + 7) div 8;
                              hash' = (if fingerprint_bits mod 8 \<noteq> 0
                                       then zero_extra_bits hash fingerprint_bits else hash)
                          in if \<not> os_alloc env (sec + length pw) then Some False
                             else
                               let fingerprint_exp = replicate sec 0 @ fingerprint_exp_loop pw
                               in if length fingerprint_exp < fingerprint_bytes then None
                                  else if os_memcmp_const hash' fingerprint_exp fingerprint_bytes \<noteq> 0
                                  then Some False
                                  else Some True)"

text \<open>
  \<^verbatim>\<open>sae_check_confirm_pk\<close>. \<open>body\<close> holds the octets between \<^verbatim>\<open>pos = sae_pk + 2\<close> and
  \<^verbatim>\<open>end = pos + sae_pk[1]\<close>; positions are offsets into it and \<open>endp\<close> is the offset of
  \<^verbatim>\<open>end\<close>. Every read is behind the length check the source makes first. The result is
  the return value; \<open>None\<close> is the undefined comparison of the fingerprint check.
\<close>

definition sae_check_confirm_pk :: "collaborators \<Rightarrow> sae_data \<Rightarrow> u8 list \<Rightarrow> int option" where
  "sae_check_confirm_pk env sae ies =
     (case sae_tmp sae of
        None \<Rightarrow> Some (-1)
      | Some tmp \<Rightarrow>
     if \<not> sae_pk_on sae \<or> tmp_ap_pk tmp \<noteq> None then Some 0
     else if length (tmp_kek tmp) \<noteq> 32 \<and> length (tmp_kek tmp) \<noteq> 48 \<and> length (tmp_kek tmp) \<noteq> 64
     then Some (-1)
     else if tmp_ec tmp = None then Some (-1)
     else
     (case get_vendor_ie env ies SAE_PK_IE_VENDOR_TYPE of
        None \<Rightarrow> Some (-1)
      | Some sae_pk_el \<Rightarrow>
       let endp = unat (sae_pk_el ! 1);
           body = take endp (drop 2 sae_pk_el)
       in
     if endp < 4 + 1 + SAE_PK_M_LEN + AES_BLOCK_SIZE then Some (-1)
     else if unat (body ! 4) \<noteq> SAE_PK_M_LEN + AES_BLOCK_SIZE then Some (-1)
     else
       let encr_mod = take (SAE_PK_M_LEN + AES_BLOCK_SIZE) (drop 5 body);
           pos = 5 + SAE_PK_M_LEN + AES_BLOCK_SIZE
       in
     if endp - pos < 4 \<or> body ! pos \<noteq> WLAN_EID_EXTENSION \<or> unat (body ! (pos + 1)) < 2 \<or>
        unat (body ! (pos + 1)) > endp - pos - 2 \<or>
        body ! (pos + 2) \<noteq> WLAN_EID_EXT_FILS_PUBLIC_KEY
     then Some (-1)
     else if body ! (pos + 3) \<noteq> 3 then Some (-1)
     else
       let k_ap_len = unat (body ! (pos + 1)) - 2;
           k_ap = take k_ap_len (drop (pos + 4) body);
           pos2 = pos + 4 + k_ap_len
       in
     if endp - pos2 < 4 \<or> body ! pos2 \<noteq> WLAN_EID_EXTENSION \<or> unat (body ! (pos2 + 1)) < 1 \<or>
        unat (body ! (pos2 + 1)) > endp - pos2 - 2 \<or>
        body ! (pos2 + 2) \<noteq> WLAN_EID_EXT_FILS_KEY_CONFIRM
     then Some (-1)
     else
       let key_auth_len = unat (body ! (pos2 + 1)) - 1;
           key_auth = take key_auth_len (drop (pos2 + 3) body)
       in
     (case aes_siv_decrypt env (tmp_kek tmp) encr_mod of
        None \<Rightarrow> Some (-1)
      | Some plain \<Rightarrow>
       let m = region SAE_PK_M_LEN plain
       in
     (case crypto_ec_key_parse_pub env k_ap of
        None \<Rightarrow> Some (-1)
      | Some key \<Rightarrow>
       let grp = crypto_ec_key_group env key
       in
     (case sae_pk_valid_fingerprint env tmp m k_ap grp of
        None \<Rightarrow> None
      | Some valid \<Rightarrow>
     if \<not> valid then Some (-1)
     else if grp \<noteq> sae_group sae then Some (-1)
     else
     (case sae_pk_hash_sig_data env sae tmp (sae_group_2_hash_len grp) False m k_ap of
        None \<Rightarrow> Some (-1)
      | Some hash \<Rightarrow>
     if crypto_ec_key_verify_signature env key hash key_auth \<noteq> 1 then Some (-1)
     else Some 0))))))"

section \<open>Concrete collaborators and sessions for evaluation\<close>

text \<open>
  A fixed instance of the collaborators, used only to run the definitions on concrete
  inputs. Its hash functions return the first octets of their input (zero-padded) as a
  digest of the right length, its signature of a hash under a key is the key followed by
  the hash, and its cipher prepends a zero tag.
\<close>

definition stub_env :: collaborators where
  "stub_env =
     \<lparr>os_alloc = alloc_ok,
      CONFIG_SHA384 = True,
      CONFIG_SHA512 = True,
      sha256_vector = (\<lambda>d. Some (take 32 (d @ replicate 32 0))),
      sha384_vector = (\<lambda>d. Some (take 48 (d @ replicate 48 0))),
      sha512_vector = (\<lambda>d. Some (take 64 (d @ replicate 64 0))),
      crypto_ec_point_to_bin =
        (\<lambda>ec p. Some (replicate 32 (of_nat (fst p)), replicate 32 (of_nat (snd p)))),
      crypto_bignum_to_bin = (\<lambda>b buflen padlen. Some (replicate padlen (of_nat b))),
      crypto_ec_key_sign = (\<lambda>k h. Some (k @ h)),
      crypto_ec_key_parse_pub = (\<lambda>b. Some b),
      crypto_ec_key_group = (\<lambda>k. 19),
      crypto_ec_key_verify_signature = (\<lambda>k h s. if s = k @ h then 1 else 0),
      aes_siv_encrypt = (\<lambda>k p. Some (replicate 16 0 @ p)),
      aes_siv_decrypt = (\<lambda>k c. Some (drop 16 c)),
      get_vendor_ie = (\<lambda>ies t. None)\<rparr>"

definition stub_pk :: sae_pk where
  "stub_pk = \<lparr>pk_m = replicate 16 7, pk_key = [1, 2, 3], pk_group = 19,
              pk_pubkey = replicate 91 4\<rparr>"

text \<open>The temporary data of an AP (key container bound) and of a STA (none bound).\<close>

definition stub_tmp :: "u8 list \<Rightarrow> sae_pk option \<Rightarrow> sae_temporary_data" where
  "stub_tmp kek ap_pk =
     \<lparr>tmp_ec = Some 19, tmp_prime_len = 32,
      tmp_own_commit_scalar = 5,
      tmp_own_commit_element_ecc = (1, 2),
      tmp_peer_commit_element_ecc = (3, 4),
      tmp_own_addr = [2, 0, 0, 0, 0, 1],
      tmp_peer_addr = [2, 0, 0, 0, 0, 2],
      tmp_kek = kek,
      tmp_ssid = [0x74, 0x65, 0x73, 0x74],
      tmp_pw = Some (replicate 8 0),
      tmp_lambda = 12,
      tmp_ap_pk = ap_pk\<rparr>"

definition stub_sae :: "sae_temporary_data \<Rightarrow> bool \<Rightarrow> sae_data" where
  "stub_sae tmp pk_on =
     \<lparr>sae_tmp = Some tmp, sae_peer_commit_scalar = 6, sae_group = 19, sae_pk_on = pk_on\<rparr>"

text \<open>An AP session and the STA session that has exchanged values with it.\<close>

definition stub_tmp_ap :: sae_temporary_data where
  "stub_tmp_ap = stub_tmp (replicate 32 9) (Some stub_pk)"

definition stub_sae_ap :: sae_data where
  "stub_sae_ap = stub_sae stub_tmp_ap False"

definition stub_tmp_sta :: sae_temporary_data where
  "stub_tmp_sta =
     (stub_tmp (replicate 32 9) None)
       \<lparr>tmp_own_commit_scalar := 6,
        tmp_own_commit_element_ecc := (3, 4),
        tmp_peer_commit_element_ecc := (1, 2),
        tmp_own_addr := [2, 0, 0, 0, 0, 2],
        tmp_peer_addr := [2, 0, 0, 0, 0, 1]\<rparr>"

definition stub_sae_sta :: sae_data where
  "stub_sae_sta = (stub_sae stub_tmp_sta True)\<lparr>sae_peer_commit_scalar := 5\<rparr>"





section \<open>Hash dispatch and transcript as the specification words them\<close>



definition H_len :: "collaborators \<Rightarrow> nat \<Rightarrow> u8 list \<Rightarrow> u8 list option" where
  "H_len env n data =
     (if n = 32 then sha256_vector env data
      else if n = 48 then sha384_vector env data
      else sha512_vector env data)"

definition transcript ::
  "u8 list \<times> u8 list \<Rightarrow> u8 list \<times> u8 list \<Rightarrow> u8 list \<Rightarrow> u8 list \<Rightarrow> u8 list \<Rightarrow> u8 list \<Rightarrow>
   u8 list \<Rightarrow> u8 list \<Rightarrow> u8 list" where
  "transcript ele_ap ele_sta sca_ap sca_sta m k_ap bssid sta_mac =
     fst ele_ap @ snd ele_ap @ fst ele_sta @ snd ele_sta @ sca_ap @ sca_sta @
     m @ k_ap @ bssid @ sta_mac"

section \<open>The fingerprint as the specification words it\<close>

text \<open>
  These follow the specification, not the code. \<open>fp_sec\<close> is \<open>Sec = (pw[0] >> 6) + 2\<close>,
  \<open>fp_bits\<close> is \<open>8 * Sec + 5 * lambda - 2\<close>, \<open>expected_octet pw j\<close> is octet \<open>j\<close> of
  \<open>Sec\<close> zero octets followed by \<open>pw\<close> shifted left by two bits (with \<open>pw[|pw|] = 0\<close>),
  and \<open>truncated_hash_octet h bits j\<close> is octet \<open>j\<close> of the hash with the low
  \<open>8 - bits mod 8\<close> bits of octet \<open>bits div 8\<close> cleared when \<open>bits mod 8 \<noteq> 0\<close>.
\<close>

definition fp_sec :: "u8 list \<Rightarrow> nat" where
  "fp_sec pw = unat (drop_bit 6 (pw ! 0)) + 2"

definition fp_bits :: "u8 list \<Rightarrow> nat \<Rightarrow> nat" where
  "fp_bits pw lam = 8 * fp_sec pw + 5 * lam - 2"



section \<open>Auxiliary notions for the codec proofs\<close>

text \<open>
  These are not part of the program. \<open>idx5\<close> names the 5-bit index the encoder passes
  to \<^verbatim>\<open>add_char\<close>, \<open>block_of\<close> the shift register after a run of octets, \<open>base32_chars\<close>
  the characters of a string that the decoder does not skip, and \<open>enc_chunks\<close> the
  encoding of whole 5-octet blocks without separators.
\<close>

definition idx5 :: "u64 \<Rightarrow> nat \<Rightarrow> u8" where
  "idx5 block j = ucast (drop_bit (j * 5) block AND 0x1f)"

definition block_of :: "u8 list \<Rightarrow> u64" where
  "block_of bs = fold (\<lambda>v block. push_bit 8 block OR ucast v) bs 0"

definition base32_chars :: "string \<Rightarrow> string" where
  "base32_chars s = filter (\<lambda>c. dtable c \<noteq> 0x80) s"

definition enc5 :: "u64 \<Rightarrow> string" where
  "enc5 block = map (\<lambda>j. sae_pk_base32_table ! unat (idx5 block j)) [7, 6, 5, 4, 3, 2, 1, 0]"

fun enc_chunks :: "u8 list \<Rightarrow> string" where
  "enc_chunks (b0 # b1 # b2 # b3 # b4 # bs) = enc5 (block_of [b0, b1, b2, b3, b4]) @ enc_chunks bs"
| "enc_chunks _ = []"

text \<open>What \<^verbatim>\<open>sae_pk_valid_password\<close> demands of the character at index \<open>i\<close>.\<close>

definition position_ok :: "string \<Rightarrow> nat \<Rightarrow> bool" where
  "position_ok p i =
     (if 0 < i \<and> i mod 5 = 4 then p ! i = CHR ''-''
      else p ! i \<in> set sae_pk_base32_table)"

section \<open>Password validation: properties\<close>

lemma os_strlen_no_NUL: "NUL \<notin> set s \<Longrightarrow> os_strlen s = length s"
  unfolding os_strlen_def by (induction s) auto

lemma os_strchr_None_iff: "c \<noteq> NUL \<Longrightarrow> os_strchr s c = None \<longleftrightarrow> c \<notin> set s"
  by (induction s) auto

lemma split_range:
  "pos < n \<Longrightarrow> (\<forall>i. pos \<le> i \<and> i < n \<longrightarrow> P i) \<longleftrightarrow>
     P pos \<and> (\<forall>i. Suc pos \<le> i \<and> i < (n::nat) \<longrightarrow> P i)"
  by (metis Suc_leI le_eq_less_or_eq Suc_leD)

lemma valid_password_loop_char:
  "NUL \<notin> set p \<Longrightarrow> pos \<le> length p \<Longrightarrow>
   valid_password_loop p pos =
     (if \<forall>i. pos \<le> i \<and> i < length p \<longrightarrow> position_ok p i then Some (length p) else None)"
proof (induction p pos rule: valid_password_loop.induct)
  case (1 pw pos)
  show ?case
  proof (cases "pos < length pw")
    case False
    with "1.prems" have "pos = length pw" by simp
    then show ?thesis
      by (subst valid_password_loop.simps) (simp add: char_at_def)
  next
    case True
    then have ch: "char_at pw pos = pw ! pos" "pw ! pos \<noteq> NUL"
      using "1.prems"(1) by (auto simp: char_at_def dest: nth_mem)
    have split: "(\<forall>i. pos \<le> i \<and> i < length pw \<longrightarrow> position_ok pw i) \<longleftrightarrow>
        position_ok pw pos \<and> (\<forall>i. pos + 1 \<le> i \<and> i < length pw \<longrightarrow> position_ok pw i)"
      using split_range [OF True, of "position_ok pw"] by simp
    show ?thesis
    proof (cases "pos \<noteq> 0 \<and> pos mod 5 = 4")
      case sep: True
      show ?thesis
      proof (cases "pw ! pos = CHR ''-''")
        case dash: True
        have "valid_password_loop pw pos = valid_password_loop pw (pos + 1)"
          using sep dash ch by (subst valid_password_loop.simps) simp
        also have "\<dots> = (if \<forall>i. pos + 1 \<le> i \<and> i < length pw \<longrightarrow> position_ok pw i
                          then Some (length pw) else None)"
          using "1.IH"(1) sep dash ch True "1.prems" by simp
        finally show ?thesis
          unfolding split using sep dash by (simp add: position_ok_def)
      next
        case nodash: False
        have "valid_password_loop pw pos = None"
          using sep nodash ch by (subst valid_password_loop.simps) simp
        moreover have "\<not> position_ok pw pos"
          using sep nodash by (simp add: position_ok_def)
        ultimately show ?thesis
          unfolding split by simp
      qed
    next
      case nosep: False
      show ?thesis
      proof (cases "pw ! pos \<in> set sae_pk_base32_table")
        case inalph: True
        then have found: "os_strchr sae_pk_base32_table (pw ! pos) \<noteq> None"
          using ch os_strchr_None_iff by simp
        have "valid_password_loop pw pos = valid_password_loop pw (pos + 1)"
          using nosep found ch by (subst valid_password_loop.simps) auto
        also have "\<dots> = (if \<forall>i. pos + 1 \<le> i \<and> i < length pw \<longrightarrow> position_ok pw i
                          then Some (length pw) else None)"
          using "1.IH"(2) nosep found ch True "1.prems" by auto
        finally show ?thesis
          unfolding split using nosep inalph by (auto simp: position_ok_def)
      next
        case notalph: False
        then have nf: "os_strchr sae_pk_base32_table (pw ! pos) = None"
          using ch os_strchr_None_iff by simp
        have "valid_password_loop pw pos = None"
          using nosep nf ch by (subst valid_password_loop.simps) auto
        moreover have "\<not> position_ok pw pos"
          using nosep notalph by (auto simp: position_ok_def)
        ultimately show ?thesis
          unfolding split by simp
      qed
    qed
  qed
qed

lemma valid_password_positions:
  assumes "NUL \<notin> set p" and "sae_pk_valid_password p"
  shows "9 \<le> length p" and "\<forall>i<length p. position_ok p i"
proof -
  have loop: "valid_password_loop p 0 =
      (if \<forall>i<length p. position_ok p i then Some (length p) else None)"
    using valid_password_loop_char [OF assms(1), of 0] by simp
  from assms(2) show "9 \<le> length p"
    unfolding sae_pk_valid_password_def os_strlen_no_NUL [OF assms(1)]
    by (simp split: if_splits)
  from assms(2) show "\<forall>i<length p. position_ok p i"
    unfolding sae_pk_valid_password_def loop os_strlen_no_NUL [OF assms(1)]
    by (simp split: if_splits)
qed

text \<open>
  C5. For a C string \<open>p\<close> (no embedded NUL), \<^verbatim>\<open>sae_pk_valid_password(p)\<close> is true iff
  \<open>p\<close> has at least 9 characters, every character at an index \<open>i > 0\<close> with
  \<open>i mod 5 = 4\<close> is a dash, every character at another index is in the base-32
  alphabet, and the last character is not a dash.
\<close>

theorem sae_pk_valid_password_iff:
  assumes "NUL \<notin> set p"
  shows "sae_pk_valid_password p \<longleftrightarrow>
           9 \<le> length p \<and>
           (\<forall>i<length p. if 0 < i \<and> i mod 5 = 4 then p ! i = CHR ''-''
                         else p ! i \<in> set sae_pk_base32_table) \<and>
           p ! (length p - 1) \<noteq> CHR ''-''"
proof -
  have loop: "valid_password_loop p 0 =
      (if \<forall>i<length p. position_ok p i then Some (length p) else None)"
    using valid_password_loop_char [OF assms, of 0] by simp
  show ?thesis
    unfolding sae_pk_valid_password_def loop os_strlen_no_NUL [OF assms]
    by (auto simp: position_ok_def char_at_def)
qed

theorem sae_pk_valid_password_iff_witness:
  "NUL \<notin> set ''abcd-efgh'' \<and> sae_pk_valid_password ''abcd-efgh'' \<and>
   9 \<le> length ''abcd-efgh'' \<and> ''abcd-efgh'' ! (length ''abcd-efgh'' - 1) \<noteq> CHR ''-''"
proof -
  have n: "NUL \<notin> set ''abcd-efgh''" by (simp add: NUL_def)
  have v: "sae_pk_valid_password ''abcd-efgh''" by code_simp
  from sae_pk_valid_password_iff [OF n, THEN iffD1, OF v] n v show ?thesis by blast
qed

text \<open>
  C6 (counterexample). The four evaluations of scenario 1 do not all hold on the code:
  \<^verbatim>\<open>abcde-fghij-klmno\<close> and \<^verbatim>\<open>abcdefghi\<close> both have the letter \<^verbatim>\<open>e\<close> at index 4,
  where the loop demands a dash, so the code returns false for them.
\<close>

theorem scenario_passwords_counterexample:
  "\<not> (sae_pk_valid_password ''abcde-fghij-klmno'' = True \<and>
      sae_pk_valid_password ''abcde-fghij-'' = False \<and>
      sae_pk_valid_password ''abcdefghi'' = True \<and>
      sae_pk_valid_password ''abcd'' = False)"
  by code_simp

text \<open>
  C6 (amended). The code returns false on each of \<^verbatim>\<open>"abcde-fghij-klmno"\<close>,
  \<^verbatim>\<open>"abcde-fghij-"\<close>, \<^verbatim>\<open>"abcdefghi"\<close> and \<^verbatim>\<open>"abcd"\<close>.
\<close>

theorem scenario_passwords_all_rejected:
  "sae_pk_valid_password ''abcde-fghij-klmno'' = False \<and>
   sae_pk_valid_password ''abcde-fghij-'' = False \<and>
   sae_pk_valid_password ''abcdefghi'' = False \<and>
   sae_pk_valid_password ''abcd'' = False"
  by code_simp

section \<open>Base-32 codec: properties\<close>

lemma table_entries:
  "\<forall>n\<in>set [0..<32]. dtable (sae_pk_base32_table ! n) = of_nat n \<and>
      dtable (sae_pk_base32_table ! n) \<noteq> 0x80 \<and>
      sae_pk_base32_table ! n \<noteq> CHR ''=''"
  by code_simp

lemma dtable_dash: "dtable CHR ''-'' = 0x80"
  by code_simp

lemma idx5_less: "unat (idx5 block j) < 32"
proof -
  have m: "(0x1f :: u64) = mask 5" by (simp add: mask_eq_exp_minus_1)
  have "idx5 block j = take_bit 5 (idx5 block j)"
    unfolding idx5_def m
    by (rule bit_word_eqI) (auto simp: bit_simps)
  then have "unat (idx5 block j) = unat (take_bit 5 (idx5 block j))" by simp
  also have "\<dots> < 2 ^ 5"
    using take_bit_nat_less_exp [of 5 "unat (idx5 block j)"] by (simp add: unsigned_take_bit_eq)
  finally show ?thesis by simp
qed

lemma dtable_idx5:
  "dtable (sae_pk_base32_table ! unat (idx5 block j)) = idx5 block j"
  "dtable (sae_pk_base32_table ! unat (idx5 block j)) \<noteq> 0x80"
  "sae_pk_base32_table ! unat (idx5 block j) \<noteq> CHR ''=''"
  using table_entries idx5_less [of block j] by auto

lemma shift_in_idx5:
  "push_bit 5 (drop_bit (n + 5) w) OR ucast (ucast (drop_bit n w AND 0x1f) :: u8) = drop_bit n (w :: u64)"
proof -
  have m: "(0x1f :: u64) = mask 5" by (simp add: mask_eq_exp_minus_1)
  have a: "\<And>k. 5 \<le> k \<Longrightarrow> n + 5 + (k - 5) = n + k" by simp
  show ?thesis unfolding m
    apply (rule bit_word_eqI)
    apply (auto simp: bit_simps)
    subgoal for k using a[of k] by (cases "5 \<le> k") auto
    done
qed

lemma block_of_5:
  fixes b0 b1 b2 b3 b4 :: u8
  defines "B \<equiv> block_of [b0, b1, b2, b3, b4]"
  shows "drop_bit 40 B = 0"
    and "ucast (drop_bit 32 B AND 0xff) = b0"
    and "ucast (drop_bit 24 B AND 0xff) = b1"
    and "ucast (drop_bit 16 B AND 0xff) = b2"
    and "ucast (drop_bit 8 B AND 0xff) = b3"
    and "ucast (B AND 0xff) = b4"
proof -
  have m: "(0xff :: u64) = mask 8" by (simp add: mask_eq_exp_minus_1)
  show "drop_bit 40 B = 0"
    unfolding B_def block_of_def
    by (rule bit_word_eqI) (auto simp: bit_simps dest: bit_imp_le_length)
  show "ucast (drop_bit 32 B AND 0xff) = b0"
    unfolding B_def block_of_def m
    by (rule bit_word_eqI) (auto simp: bit_simps dest: bit_imp_le_length)
  show "ucast (drop_bit 24 B AND 0xff) = b1"
    unfolding B_def block_of_def m
    by (rule bit_word_eqI) (auto simp: bit_simps dest: bit_imp_le_length)
  show "ucast (drop_bit 16 B AND 0xff) = b2"
    unfolding B_def block_of_def m
    by (rule bit_word_eqI) (auto simp: bit_simps dest: bit_imp_le_length)
  show "ucast (drop_bit 8 B AND 0xff) = b3"
    unfolding B_def block_of_def m
    by (rule bit_word_eqI) (auto simp: bit_simps dest: bit_imp_le_length)
  show "ucast (B AND 0xff) = b4"
    unfolding B_def block_of_def m
    by (rule bit_word_eqI) (auto simp: bit_simps dest: bit_imp_le_length)
qed

lemma base32_chars_append [simp]: "base32_chars (xs @ ys) = base32_chars xs @ base32_chars ys"
  by (simp add: base32_chars_def)

lemma add_char_chars:
  assumes "5 \<le> bits"
  shows "snd (add_char out (idx5 block j) bits) = bits - 5"
    and "base32_chars (fst (add_char out (idx5 block j) bits)) =
           base32_chars out @ [sae_pk_base32_table ! unat (idx5 block j)]"
  using assms dtable_idx5(2) [of block j]
  by (auto simp: add_char_def Let_def base32_chars_def dtable_dash)

lemma fold_add_char:
  "5 * length js \<le> left \<Longrightarrow>
   \<exists>out'. fold (\<lambda>j (out, left). add_char out (idx5 block j) left) js (out, left) =
            (out', left - 5 * length js) \<and>
          base32_chars out' = base32_chars out @ map (\<lambda>j. sae_pk_base32_table ! unat (idx5 block j)) js"
proof (induction js arbitrary: out left)
  case Nil
  then show ?case by simp
next
  case (Cons j js)
  obtain o1 l1 where s1: "add_char out (idx5 block j) left = (o1, l1)"
    by (cases "add_char out (idx5 block j) left")
  have "5 \<le> left" using Cons.prems by simp
  from add_char_chars [OF this, of out block j] s1
  have l1: "l1 = left - 5"
    and o1: "base32_chars o1 = base32_chars out @ [sae_pk_base32_table ! unat (idx5 block j)]"
    by simp_all
  have "5 * length js \<le> l1" using Cons.prems l1 by simp
  from Cons.IH [OF this, of o1] obtain out' where
    "fold (\<lambda>j (out, left). add_char out (idx5 block j) left) js (o1, l1) =
       (out', l1 - 5 * length js)"
    "base32_chars out' = base32_chars o1 @ map (\<lambda>j. sae_pk_base32_table ! unat (idx5 block j)) js"
    by blast
  then show ?case using s1 l1 o1 by simp
qed

lemma encode_block_chars:
  assumes "40 \<le> left"
  shows "\<exists>out'. encode_block block (out, left) = (out', left - 40) \<and>
           base32_chars out' = base32_chars out @ enc5 block"
proof -
  have "encode_block block =
      fold (\<lambda>j (out, left). add_char out (idx5 block j) left) [7, 6, 5, 4, 3, 2, 1, 0]"
    unfolding encode_block_def idx5_def ..
  then show ?thesis
    using fold_add_char [of "[7, 6, 5, 4, 3, 2, 1, 0]" left block out] assms
    by (simp add: enc5_def)
qed

lemma encode_five_steps:
  assumes "i mod 5 = 0" and "i + 5 \<le> len" and "40 \<le> left"
  shows "\<exists>out'. fold (encode_step src len) [i, i + 1, i + 2, i + 3, i + 4] (0, out, left) =
            (0, out', left - 40) \<and>
          base32_chars out' = base32_chars out @
            enc5 (block_of [src ! i, src ! (i + 1), src ! (i + 2), src ! (i + 3), src ! (i + 4)])"
proof -
  have m: "(i + 1) mod 5 = 1" "(i + 2) mod 5 = 2" "(i + 3) mod 5 = 3" "(i + 4) mod 5 = 4"
    using assms(1) by presburger+
  let ?B = "block_of [src ! i, src ! (i + 1), src ! (i + 2), src ! (i + 3), src ! (i + 4)]"
  from encode_block_chars [OF assms(3), of ?B out] obtain out' where
    eb: "encode_block ?B (out, left) = (out', left - 40)" and
    st: "base32_chars out' = base32_chars out @ enc5 ?B"
    by blast
  have "fold (encode_step src len) [i, i + 1, i + 2, i + 3, i + 4] (0, out, left) =
          (0, out', left - 40)"
    using assms(1,2) m eb by (simp add: encode_step_def block_of_def)
  with st show ?thesis by blast
qed

lemma upt_five: "[n..<n + 5] = [n, n + 1, n + 2, n + 3, n + 4]"
  by (simp add: upt_conv_Cons)

lemma take_five:
  assumes "n + 5 \<le> length xs"
  shows "take (n + 5) xs = take n xs @ [xs ! n, xs ! (n + 1), xs ! (n + 2), xs ! (n + 3), xs ! (n + 4)]"
proof -
  have "take (n + 5) xs = take (Suc (Suc (Suc (Suc (Suc n))))) xs"
    by (simp add: eval_nat_numeral)
  also have "\<dots> = take n xs @ [xs ! n, xs ! Suc n, xs ! Suc (Suc n), xs ! Suc (Suc (Suc n)),
      xs ! Suc (Suc (Suc (Suc n)))]"
    using assms by (simp add: take_Suc_conv_app_nth)
  finally show ?thesis by (simp add: eval_nat_numeral)
qed

lemma enc_chunks_append:
  "length xs mod 5 = 0 \<Longrightarrow> enc_chunks (xs @ ys) = enc_chunks xs @ enc_chunks ys"
proof (induction xs rule: enc_chunks.induct)
  case (1 b0 b1 b2 b3 b4 bs)
  then show ?case by simp
qed simp_all

lemma encode_loop_blocks:
  assumes "5 * k \<le> len" and "len \<le> length src" and "40 * k \<le> left"
  shows "\<exists>out. fold (encode_step src len) [0..<5 * k] (0, [], left) = (0, out, left - 40 * k) \<and>
           base32_chars out = enc_chunks (take (5 * k) src)"
  using assms
proof (induction k)
  case 0
  then show ?case by (simp add: base32_chars_def)
next
  case (Suc k)
  then obtain out where
    f: "fold (encode_step src len) [0..<5 * k] (0, [], left) = (0, out, left - 40 * k)" and
    st: "base32_chars out = enc_chunks (take (5 * k) src)"
    by auto
  have r: "[0..<5 * Suc k] = [0..<5 * k] @ [5 * k, 5 * k + 1, 5 * k + 2, 5 * k + 3, 5 * k + 4]"
  proof -
    have e: "5 * Suc k = 5 * k + 5" by simp
    show ?thesis unfolding e upt_add_eq_append [OF le0] upt_five ..
  qed
  have c1: "(5 * k) mod 5 = 0" by simp
  have c2: "5 * k + 5 \<le> len" using Suc.prems by simp
  have c3: "40 \<le> left - 40 * k" using Suc.prems by simp
  from encode_five_steps [OF c1 c2 c3, of src out] obtain out' where
    g: "fold (encode_step src len) [5 * k, 5 * k + 1, 5 * k + 2, 5 * k + 3, 5 * k + 4]
          (0, out, left - 40 * k) = (0, out', left - 40 * k - 40)" and
    st': "base32_chars out' = base32_chars out @ enc5 (block_of [src ! (5 * k), src ! (5 * k + 1),
           src ! (5 * k + 2), src ! (5 * k + 3), src ! (5 * k + 4)])"
    by blast
  have t: "take (5 * Suc k) src = take (5 * k) src @ [src ! (5 * k), src ! (5 * k + 1),
           src ! (5 * k + 2), src ! (5 * k + 3), src ! (5 * k + 4)]"
  proof -
    have e: "5 * Suc k = 5 * k + 5" by simp
    have "5 * k + 5 \<le> length src" using Suc.prems by simp
    from take_five [OF this] show ?thesis unfolding e .
  qed
  have "length (take (5 * k) src) mod 5 = 0"
    using Suc.prems by simp
  then have "enc_chunks (take (5 * Suc k) src) = base32_chars out'"
    unfolding t st' st by (simp add: enc_chunks_append)
  moreover have "fold (encode_step src len) [0..<5 * Suc k] (0, [], left) =
      (0, out', left - 40 * Suc k)"
    unfolding r using f g by simp
  ultimately show ?case by auto
qed

lemma decode_loop_skips:
  "decode_loop s block count pad out = decode_loop (base32_chars s) block count pad out"
  by (induction s arbitrary: block count pad out)
     (simp_all add: base32_chars_def Let_def decode_loop.simps)

lemma decode_loop_valid:
  assumes "dtable c \<noteq> 0x80" and "c \<noteq> CHR ''=''" and "Suc count \<noteq> 8"
  shows "decode_loop (c # vs) block count 0 out =
         decode_loop vs (push_bit 5 block OR ucast (dtable c)) (Suc count) 0 out"
  using assms by (simp add: Let_def decode_loop.simps)

lemma decode_loop_valid_last:
  assumes "dtable c \<noteq> 0x80" and "c \<noteq> CHR ''=''" and "Suc count = 8"
  shows "decode_loop (c # vs) block count 0 out =
         decode_loop vs 0 0 0 (out @
           [ucast (drop_bit 32 (push_bit 5 block OR ucast (dtable c)) AND 0xff),
            ucast (drop_bit 24 (push_bit 5 block OR ucast (dtable c)) AND 0xff),
            ucast (drop_bit 16 (push_bit 5 block OR ucast (dtable c)) AND 0xff),
            ucast (drop_bit 8 (push_bit 5 block OR ucast (dtable c)) AND 0xff),
            ucast ((push_bit 5 block OR ucast (dtable c)) AND 0xff)])"
  using assms by (simp add: Let_def decode_loop.simps)

lemma decode_enc5:
  assumes "drop_bit 40 B = 0"
  shows "decode_loop (enc5 B @ rest) 0 0 0 out =
         decode_loop rest 0 0 0 (out @
           [ucast (drop_bit 32 B AND 0xff), ucast (drop_bit 24 B AND 0xff),
            ucast (drop_bit 16 B AND 0xff), ucast (drop_bit 8 B AND 0xff),
            ucast (B AND 0xff)])"
proof -
  have a7: "ucast (idx5 B 7) = drop_bit 35 B"
    using shift_in_idx5 [of 35 B] assms by (simp add: idx5_def)
  have a6: "push_bit 5 (drop_bit 35 B) OR ucast (idx5 B 6) = drop_bit 30 B"
    using shift_in_idx5 [of 30 B] by (simp add: idx5_def)
  have a5: "push_bit 5 (drop_bit 30 B) OR ucast (idx5 B 5) = drop_bit 25 B"
    using shift_in_idx5 [of 25 B] by (simp add: idx5_def)
  have a4: "push_bit 5 (drop_bit 25 B) OR ucast (idx5 B 4) = drop_bit 20 B"
    using shift_in_idx5 [of 20 B] by (simp add: idx5_def)
  have a3: "push_bit 5 (drop_bit 20 B) OR ucast (idx5 B 3) = drop_bit 15 B"
    using shift_in_idx5 [of 15 B] by (simp add: idx5_def)
  have a2: "push_bit 5 (drop_bit 15 B) OR ucast (idx5 B 2) = drop_bit 10 B"
    using shift_in_idx5 [of 10 B] by (simp add: idx5_def)
  have a1: "push_bit 5 (drop_bit 10 B) OR ucast (idx5 B (Suc 0)) = drop_bit 5 B"
    using shift_in_idx5 [of 5 B] by (simp add: idx5_def)
  have a0: "push_bit 5 (drop_bit 5 B) OR ucast (idx5 B 0) = B"
    using shift_in_idx5 [of 0 B] by (simp add: idx5_def)
  note v = dtable_idx5(2,3)
  let ?c = "\<lambda>j. sae_pk_base32_table ! unat (idx5 B j)"
  have "decode_loop (enc5 B @ rest) 0 0 0 out =
        decode_loop (?c 7 # ?c 6 # ?c 5 # ?c 4 # ?c 3 # ?c 2 # ?c 1 # ?c 0 # rest) 0 0 0 out"
    by (simp add: enc5_def)
  also have "\<dots> = decode_loop (?c 6 # ?c 5 # ?c 4 # ?c 3 # ?c 2 # ?c 1 # ?c 0 # rest)
        (drop_bit 35 B) (Suc 0) 0 out"
    by (subst decode_loop_valid [OF v]) (simp_all add: dtable_idx5(1) a7)
  also have "\<dots> = decode_loop (?c 5 # ?c 4 # ?c 3 # ?c 2 # ?c 1 # ?c 0 # rest)
        (drop_bit 30 B) (Suc (Suc 0)) 0 out"
    by (subst decode_loop_valid [OF v]) (simp_all add: dtable_idx5(1) a6)
  also have "\<dots> = decode_loop (?c 4 # ?c 3 # ?c 2 # ?c 1 # ?c 0 # rest)
        (drop_bit 25 B) (Suc (Suc (Suc 0))) 0 out"
    by (subst decode_loop_valid [OF v]) (simp_all add: dtable_idx5(1) a5)
  also have "\<dots> = decode_loop (?c 3 # ?c 2 # ?c 1 # ?c 0 # rest)
        (drop_bit 20 B) (Suc (Suc (Suc (Suc 0)))) 0 out"
    by (subst decode_loop_valid [OF v]) (simp_all add: dtable_idx5(1) a4)
  also have "\<dots> = decode_loop (?c 2 # ?c 1 # ?c 0 # rest)
        (drop_bit 15 B) (Suc (Suc (Suc (Suc (Suc 0))))) 0 out"
    by (subst decode_loop_valid [OF v]) (simp_all add: dtable_idx5(1) a3)
  also have "\<dots> = decode_loop (?c 1 # ?c 0 # rest)
        (drop_bit 10 B) (Suc (Suc (Suc (Suc (Suc (Suc 0)))))) 0 out"
    by (subst decode_loop_valid [OF v]) (simp_all add: dtable_idx5(1) a2)
  also have "\<dots> = decode_loop (?c 0 # rest)
        (drop_bit 5 B) (Suc (Suc (Suc (Suc (Suc (Suc (Suc 0))))))) 0 out"
    by (subst decode_loop_valid [OF v]) (simp_all add: dtable_idx5(1) a1)
  also have "\<dots> = decode_loop rest 0 0 0 (out @
           [ucast (drop_bit 32 B AND 0xff), ucast (drop_bit 24 B AND 0xff),
            ucast (drop_bit 16 B AND 0xff), ucast (drop_bit 8 B AND 0xff),
            ucast (B AND 0xff)])"
    by (subst decode_loop_valid_last [OF v]) (simp_all add: dtable_idx5(1) a0)
  finally show ?thesis .
qed

lemma decode_enc_chunks:
  "length b mod 5 = 0 \<Longrightarrow>
   decode_loop (enc_chunks b @ rest) 0 0 0 out = decode_loop rest 0 0 0 (out @ b)"
proof (induction b arbitrary: out rule: enc_chunks.induct)
  case (1 b0 b1 b2 b3 b4 bs)
  have "length bs mod 5 = 0" using "1.prems" by simp
  note ih = "1.IH" [OF this]
  note blk = block_of_5 [of b0 b1 b2 b3 b4]
  show ?case
    by (simp add: decode_enc5 [OF blk(1)] blk(2-) ih)
qed (simp_all add: decode_loop.simps)

lemma length_enc_chunks:
  "length b mod 5 = 0 \<Longrightarrow> length (enc_chunks b) = 8 * (length b div 5)"
proof (induction b rule: enc_chunks.induct)
  case (1 b0 b1 b2 b3 b4 bs)
  have "(5 + length bs) div 5 = Suc (length bs div 5)" by simp
  with 1 show ?case by (simp add: enc5_def)
qed simp_all

lemma decode_values_no_padding:
  "map (\<lambda>i. if i \<ge> length s then c else s ! i) [0..<length s + 0] = s"
  by (auto intro: nth_equalityI)

lemma size_t_fits:
  assumes "8 * n \<le> SIZE_MAX" and "n mod 5 = 0"
  shows "((8 * n + 7) mod (SIZE_MAX + 1)) div 8 = n" and "\<not> n \<ge> SIZE_MAX div 8"
proof -
  have "8 * n + 7 < SIZE_MAX + 1"
    using assms(1) unfolding SIZE_MAX_def by simp presburger
  then show "((8 * n + 7) mod (SIZE_MAX + 1)) div 8 = n" by simp
  show "\<not> n \<ge> SIZE_MAX div 8"
    using assms unfolding SIZE_MAX_def by simp presburger
qed

text \<open>
  C3. For every octet string \<open>b\<close> whose length is a positive multiple of 5 (and whose
  bit length fits \<^verbatim>\<open>size_t\<close>), with allocations succeeding, decoding the encoding of
  \<open>b\<close> with \<open>len_bits = 8 * |b|\<close> returns \<open>b\<close> itself, so the output length is \<open>|b|\<close>.
\<close>

theorem base32_round_trip:
  assumes "0 < length b" and "length b mod 5 = 0" and "8 * length b \<le> SIZE_MAX"
    and "\<forall>n. os_zalloc n" and "\<forall>n. os_malloc n"
  shows "Option.bind (sae_pk_base32_encode os_zalloc b (8 * length b))
           (sae_pk_base32_decode os_malloc) = Some b"
proof -
  define k where "k = length b div 5"
  have n: "length b = 5 * k" using assms(2) k_def by auto
  have kpos: "0 < k" using assms(1) n by simp
  from encode_loop_blocks [of k "length b" b "8 * length b"] n
  obtain out where
    f: "fold (encode_step b (length b)) [0..<length b] (0, [], 8 * length b) = (0, out, 0)" and
    st: "base32_chars out = enc_chunks b"
    by auto
  have enc: "sae_pk_base32_encode os_zalloc b (8 * length b) = Some out"
    using size_t_fits [OF assms(3,2)] assms(1,2,4) f
    by (simp add: sae_pk_base32_encode_def Let_def)
  have cnt: "length (filter (\<lambda>c. dtable c \<noteq> 0x80) out) = 8 * k"
    using st length_enc_chunks [OF assms(2)] n by (simp add: base32_chars_def)
  have "decode_loop out 0 0 0 [] = decode_loop (enc_chunks b @ []) 0 0 0 []"
    using decode_loop_skips [of out] st by simp
  also have "\<dots> = b"
    using decode_enc_chunks [OF assms(2), of "[]" "[]"] by (simp add: decode_loop.simps)
  finally have dl: "decode_loop out 0 0 0 [] = b" .
  have "sae_pk_base32_decode os_malloc out = Some b"
    using cnt kpos assms(5) dl decode_values_no_padding [of out]
    by (simp add: sae_pk_base32_decode_def Let_def)
  with enc show ?thesis by simp
qed

theorem base32_round_trip_witness:
  "Option.bind (sae_pk_base32_encode alloc_ok [0x12, 0x34, 0x56, 0x78, 0x9a] (8 * length [0x12, 0x34, 0x56, 0x78, 0x9a :: u8]))
           (sae_pk_base32_decode alloc_ok) = Some [0x12, 0x34, 0x56, 0x78, 0x9a]"
  by (rule base32_round_trip) (simp_all add: SIZE_MAX_def alloc_ok_def)

lemma fold_update_other:
  "c \<notin> (\<lambda>i. t ! i) ` set js \<Longrightarrow> fold (\<lambda>i d. d(t ! i := f i)) js g c = g c"
  by (induction js arbitrary: g) auto

lemma dtable_skipped:
  assumes "c \<notin> set sae_pk_base32_table" and "c \<noteq> CHR ''=''"
  shows "dtable c = 0x80"
proof -
  have "(\<lambda>i. sae_pk_base32_table ! i) ` set [0..<length sae_pk_base32_table] =
        set sae_pk_base32_table"
    by (metis list.set_map map_nth)
  with assms(1) have "c \<notin> (\<lambda>i. sae_pk_base32_table ! i) ` set [0..<length sae_pk_base32_table]"
    by simp
  from fold_update_other [OF this] assms(2) show ?thesis
    by (simp add: dtable_def)
qed

text \<open>
  C7 (amended). For every input that contains no alphabet character and no padding
  character \<^verbatim>\<open>=\<close>, \<^verbatim>\<open>sae_pk_base32_decode\<close> returns the null pointer.
\<close>

theorem base32_decode_nothing_to_decode:
  assumes "\<forall>c\<in>set s. c \<notin> set sae_pk_base32_table \<and> c \<noteq> CHR ''=''"
  shows "sae_pk_base32_decode os_malloc s = None"
proof -
  have "filter (\<lambda>c. dtable c \<noteq> 0x80) s = []"
    using assms by (auto simp: filter_empty_conv dtable_skipped)
  then show ?thesis by (simp add: sae_pk_base32_decode_def)
qed

theorem base32_decode_nothing_to_decode_witness:
  "CHR ''-'' \<notin> set sae_pk_base32_table \<and> CHR '' '' \<notin> set sae_pk_base32_table \<and>
   sae_pk_base32_decode alloc_ok ''- -'' = None"
proof -
  have h: "\<forall>c\<in>set ''- -''. c \<notin> set sae_pk_base32_table \<and> c \<noteq> CHR ''=''"
    by (simp add: sae_pk_base32_table_def)
  from base32_decode_nothing_to_decode [OF h, of alloc_ok] h show ?thesis by simp
qed

text \<open>
  C7 (counterexample). The one-character input \<^verbatim>\<open>=\<close> contains no alphabet character,
  yet the decoder counts it (its table entry is 0, not \<^verbatim>\<open>0x80\<close>) and returns a non-null
  buffer with output length 0.
\<close>

theorem base32_decode_padding_only_not_null:
  "CHR ''='' \<notin> set sae_pk_base32_table \<and> sae_pk_base32_decode alloc_ok ''='' = Some []"
  by code_simp

text \<open>
  The length of what the decoder returns for a password that passes validation: its
  \<open>lambda = |p| - |p| div 5\<close> alphabet characters decode to at least
  \<open>(5 * lambda + 5) div 8\<close> octets.
\<close>

lemma dtable_alphabet:
  assumes "c \<in> set sae_pk_base32_table"
  shows "dtable c \<noteq> 0x80" and "c \<noteq> CHR ''=''"
proof -
  from assms obtain n where n: "n < length sae_pk_base32_table" "c = sae_pk_base32_table ! n"
    by (auto simp: in_set_conv_nth)
  then have "n \<in> set [0..<32]" by (simp add: sae_pk_base32_table_def)
  with table_entries have "dtable (sae_pk_base32_table ! n) \<noteq> 0x80 \<and>
      sae_pk_base32_table ! n \<noteq> CHR ''=''"
    by blast
  with n(2) have "dtable c \<noteq> 0x80 \<and> c \<noteq> CHR ''=''" by simp
  then show "dtable c \<noteq> 0x80" and "c \<noteq> CHR ''=''" by simp_all
qed

lemma dtable_pad: "dtable CHR ''='' = 0"
  by (simp add: dtable_def)
lemma decode_loop_pad:
  assumes "Suc count \<noteq> 8"
  shows "decode_loop (CHR ''='' # vs) block count pad out =
         decode_loop vs (push_bit 5 block) (Suc count) (Suc pad) out"
  using assms by (simp add: decode_loop.simps dtable_pad Let_def)

lemma decode_loop_pad_last:
  assumes "Suc count = 8"
  shows "length (decode_loop (CHR ''='' # vs) block count pad out) =
         length out + 5 - Suc pad * 5 div 8"
  using assms by (simp add: decode_loop.simps dtable_pad Let_def)

lemma decode_pad_run:
  assumes "count + e = 8" and "0 < e"
  shows "length (decode_loop (replicate e CHR ''='' @ rest) block count pad out) =
         length out + 5 - (pad + e) * 5 div 8"
  using assms
proof (induction e arbitrary: block count pad)
  case 0
  then show ?case by simp
next
  case (Suc e)
  show ?case
  proof (cases "e = 0")
    case True
    with Suc.prems have "Suc count = 8" by simp
    from decode_loop_pad_last [OF this] True show ?thesis by simp
  next
    case False
    with Suc.prems have c: "Suc count \<noteq> 8" "Suc count + e = 8" "0 < e" by simp_all
    from Suc.IH [OF c(2,3)] decode_loop_pad [OF c(1)] show ?thesis by simp
  qed
qed

lemma decode_valid_run:
  assumes "\<forall>c\<in>set vs. dtable c \<noteq> 0x80 \<and> c \<noteq> CHR ''=''" and "count + length vs < 8"
  shows "\<exists>block'. decode_loop (vs @ rest) block count 0 out =
           decode_loop rest block' (count + length vs) 0 out"
  using assms
proof (induction vs arbitrary: block count)
  case Nil
  then show ?case by auto
next
  case (Cons v vs)
  then have v: "dtable v \<noteq> 0x80" "v \<noteq> CHR ''=''" "Suc count \<noteq> 8" by simp_all
  have "\<forall>c\<in>set vs. dtable c \<noteq> 0x80 \<and> c \<noteq> CHR ''=''" "Suc count + length vs < 8"
    using Cons.prems by simp_all
  from Cons.IH [OF this] decode_loop_valid [OF v] show ?case by simp
qed

lemma decode_loop_valid_last_ex:
  assumes "dtable c \<noteq> 0x80" and "c \<noteq> CHR ''=''" and "Suc count = 8"
  shows "\<exists>bs. length bs = 5 \<and>
           decode_loop (c # vs) block count 0 out = decode_loop vs 0 0 0 (out @ bs)"
proof -
  let ?b = "push_bit 5 block OR ucast (dtable c)"
  let ?bs = "[ucast (drop_bit 32 ?b AND 0xff), ucast (drop_bit 24 ?b AND 0xff),
              ucast (drop_bit 16 ?b AND 0xff), ucast (drop_bit 8 ?b AND 0xff),
              ucast (?b AND 0xff)] :: u8 list"
  have "length ?bs = 5" by simp
  moreover have "decode_loop (c # vs) block count 0 out = decode_loop vs 0 0 0 (out @ ?bs)"
    by (rule decode_loop_valid_last [OF assms])
  ultimately show ?thesis by blast
qed

lemma decode_full_group:
  assumes "\<forall>c\<in>set vs. dtable c \<noteq> 0x80 \<and> c \<noteq> CHR ''=''" and "length vs = 8"
  shows "\<exists>bs. length bs = 5 \<and>
           decode_loop (vs @ rest) 0 0 0 out = decode_loop rest 0 0 0 (out @ bs)"
proof -
  have d: "drop 7 vs = [vs ! 7]"
    using assms(2) Cons_nth_drop_Suc [of 7 vs] by simp
  have "(take 7 vs @ drop 7 vs) @ rest = vs @ rest" by simp
  then have e: "take 7 vs @ vs ! 7 # rest = vs @ rest" unfolding d by simp
  have a: "\<forall>c\<in>set (take 7 vs). dtable c \<noteq> 0x80 \<and> c \<noteq> CHR ''=''"
    using assms(1) by (auto dest: in_set_takeD)
  have l: "0 + length (take 7 vs) < 8" using assms(2) by simp
  from decode_valid_run [OF a l, of "vs ! 7 # rest" 0 out] obtain block' where
    b: "decode_loop (take 7 vs @ vs ! 7 # rest) 0 0 0 out =
        decode_loop (vs ! 7 # rest) block' 7 0 out"
    using assms(2) by auto
  have v7: "dtable (vs ! 7) \<noteq> 0x80" "vs ! 7 \<noteq> CHR ''=''"
    using assms by (auto simp: all_set_conv_all_nth)
  have s8: "Suc 7 = 8" by simp
  obtain bs where bs: "length bs = 5"
    "decode_loop (vs ! 7 # rest) block' 7 0 out = decode_loop rest 0 0 0 (out @ bs)"
    using decode_loop_valid_last_ex [OF v7 s8, of rest block' out] by blast
  from b have "decode_loop (vs @ rest) 0 0 0 out = decode_loop (vs ! 7 # rest) block' 7 0 out"
    unfolding e .
  also note bs(2)
  finally have "decode_loop (vs @ rest) 0 0 0 out = decode_loop rest 0 0 0 (out @ bs)" .
  with bs(1) show ?thesis by (intro exI [of _ bs] conjI)
qed

lemma count_step_dash: "n mod 5 = 4 \<Longrightarrow> Suc n - Suc n div 5 = n - n div (5::nat)"
  by (simp add: div_Suc mod_Suc)
lemma count_step_char: "n mod 5 \<noteq> 4 \<Longrightarrow> Suc n - Suc n div 5 = Suc (n - n div (5::nat))"
  by (simp add: div_Suc mod_Suc Suc_diff_le)

lemma base32_chars_of_password:
  assumes "\<forall>i<length p. position_ok p i"
  shows "length (base32_chars p) = length p - length p div 5 \<and>
         (\<forall>c\<in>set (base32_chars p). dtable c \<noteq> 0x80 \<and> c \<noteq> CHR ''='')"
  using assms
proof (induction p rule: rev_induct)
  case Nil
  then show ?case by (simp add: base32_chars_def)
next
  case (snoc x xs)
  have "\<forall>i<length xs. position_ok xs i"
  proof (intro allI impI)
    fix i assume i: "i < length xs"
    then have "position_ok (xs @ [x]) i" using snoc.prems by simp
    then show "position_ok xs i" using i
      by (auto simp: position_ok_def nth_append split: if_splits)
  qed
  from snoc.IH [OF this] have
    ih: "length (base32_chars xs) = length xs - length xs div 5"
      "\<forall>c\<in>set (base32_chars xs). dtable c \<noteq> 0x80 \<and> c \<noteq> CHR ''=''"
    by simp_all
  have last: "position_ok (xs @ [x]) (length xs)" using snoc.prems by simp
  show ?case
  proof (cases "length xs mod 5 = 4")
    case True
    then have "0 < length xs" by (cases xs) auto
    with True last have "x = CHR ''-''" by (simp add: position_ok_def)
    then have "base32_chars (xs @ [x]) = base32_chars xs"
      by (simp add: base32_chars_def dtable_dash)
    moreover have "length (xs @ [x]) - length (xs @ [x]) div 5 = length xs - length xs div 5"
      using count_step_dash [OF True] by simp
    ultimately show ?thesis using ih by simp
  next
    case False
    with last have "x \<in> set sae_pk_base32_table" by (simp add: position_ok_def)
    from dtable_alphabet [OF this] have x: "dtable x \<noteq> 0x80" "x \<noteq> CHR ''=''" .
    then have "base32_chars (xs @ [x]) = base32_chars xs @ [x]"
      by (simp add: base32_chars_def)
    moreover have "length (xs @ [x]) - length (xs @ [x]) div 5 =
        Suc (length xs - length xs div 5)"
      using count_step_char [OF False] by simp
    ultimately show ?thesis using ih x by simp
  qed
qed

lemma decode_length:
  assumes "\<forall>c\<in>set vs. dtable c \<noteq> 0x80 \<and> c \<noteq> CHR ''=''"
  shows "length (decode_loop (vs @ replicate ((8 - length vs mod 8) mod 8) CHR ''='') 0 0 0 out) =
         length out + 5 * (length vs div 8) +
           (if length vs mod 8 = 0 then 0 else 5 - (8 - length vs mod 8) * 5 div 8)"
  using assms
proof (induction "length vs" arbitrary: vs out rule: less_induct)
  case less
  let ?e = "(8 - length vs mod 8) mod 8"
  let ?pad = "replicate ?e CHR ''=''"
  show ?case
  proof (cases "8 \<le> length vs")
    case True
    let ?hd = "take 8 vs" and ?tl = "drop 8 vs"
    have h: "\<forall>c\<in>set ?hd. dtable c \<noteq> 0x80 \<and> c \<noteq> CHR ''=''" "length ?hd = 8"
      using less.prems True by (auto dest: in_set_takeD)
    have t: "\<forall>c\<in>set ?tl. dtable c \<noteq> 0x80 \<and> c \<noteq> CHR ''=''" "length ?tl < length vs"
      using less.prems True by (auto dest: in_set_dropD)
    have lt: "length ?tl = length vs - 8" by simp
    have m: "length ?tl mod 8 = length vs mod 8" "length vs div 8 = Suc (length ?tl div 8)"
      using True unfolding lt by (simp_all add: le_mod_geq le_div_geq)
    from decode_full_group [OF h, of "?tl @ ?pad" out] obtain bs where
      bs: "length bs = 5"
        "decode_loop (?hd @ ?tl @ ?pad) 0 0 0 out = decode_loop (?tl @ ?pad) 0 0 0 (out @ bs)"
      by blast
    have "vs @ ?pad = ?hd @ ?tl @ ?pad"
      by (simp only: append_assoc [symmetric] append_take_drop_id)
    then have "decode_loop (vs @ ?pad) 0 0 0 out = decode_loop (?hd @ ?tl @ ?pad) 0 0 0 out"
      by (rule arg_cong [where f = "\<lambda>x. decode_loop x 0 0 0 out"])
    also note bs(2)
    finally have "length (decode_loop (vs @ ?pad) 0 0 0 out) =
        length (decode_loop (?tl @ ?pad) 0 0 0 (out @ bs))"
      by (rule arg_cong)
    also have "\<dots> = length (out @ bs) + 5 * (length ?tl div 8) +
           (if length ?tl mod 8 = 0 then 0 else 5 - (8 - length ?tl mod 8) * 5 div 8)"
      using less.hyps [OF t(2) t(1), of "out @ bs"] unfolding m(1) .
    finally show ?thesis using bs(1) unfolding m by simp
  next
    case False
    then have small: "length vs < 8" by simp
    show ?thesis
    proof (cases "vs = []")
      case True
      then show ?thesis by (simp add: decode_loop.simps)
    next
      case False
      then have pos: "0 < length vs" by simp
      have e: "?e = 8 - length vs" "length vs mod 8 = length vs" using small pos by simp_all
      have l: "0 + length vs < 8" using small by simp
      from decode_valid_run [OF less.prems l, of ?pad 0 out] obtain block' where
        "decode_loop (vs @ ?pad) 0 0 0 out = decode_loop ?pad block' (length vs) 0 out"
        by auto
      moreover have "length (decode_loop (replicate (8 - length vs) CHR ''='' @ []) block'
          (length vs) 0 out) = length out + 5 - (0 + (8 - length vs)) * 5 div 8"
        using small pos by (intro decode_pad_run) simp_all
      ultimately show ?thesis using small pos unfolding e by simp
    qed
  qed
qed

lemma in_bounds_arith:
  assumes "k < (8::nat)"
  shows "(5 * k + 5) div 8 \<le> (if k = 0 then 0 else 5 - (8 - k) * 5 div 8)"
proof -
  from assms have "k = 0 \<or> k = 1 \<or> k = 2 \<or> k = 3 \<or> k = 4 \<or> k = 5 \<or> k = 6 \<or> k = 7"
    by linarith
  then show ?thesis by (elim disjE) simp_all
qed

lemma decode_values:
  "map (\<lambda>i. if i \<ge> length s then c else s ! i) [0..<length s + e] = s @ replicate e c"
  by (rule nth_equalityI) (auto simp: nth_append)


lemma base32_chars_pad:
  "base32_chars (replicate e CHR ''='') = replicate e CHR ''=''"
  by (simp add: base32_chars_def dtable_pad)

lemma div8_split: "(8 * a + b) div 8 = a + b div (8::nat)"
  by simp

lemma decode_password:
  assumes "NUL \<notin> set p" and "sae_pk_valid_password p" and "\<forall>n. os_malloc n"
  shows "\<exists>pw. sae_pk_base32_decode os_malloc p = Some pw \<and>
           (5 * (length p - length p div 5) + 5) div 8 \<le> length pw"
proof -
  note v = valid_password_positions [OF assms(1,2)]
  let ?vs = "base32_chars p"
  let ?c = "length p - length p div 5"
  from base32_chars_of_password [OF v(2)] have
    c: "length ?vs = ?c" and a: "\<forall>c\<in>set ?vs. dtable c \<noteq> 0x80 \<and> c \<noteq> CHR ''=''"
    by simp_all
  have "length p div 5 < length p" using v(1) by simp
  then have cpos: "0 < ?c" by simp
  let ?e = "(8 - ?c mod 8) mod 8"
  let ?pw = "decode_loop (p @ replicate ?e CHR ''='') 0 0 0 []"
  have cnt: "length (filter (\<lambda>c. dtable c \<noteq> 0x80) p) = ?c"
    using c by (simp add: base32_chars_def)
  have dec: "sae_pk_base32_decode os_malloc p = Some ?pw"
    using cnt cpos assms(3) decode_values [of p "CHR ''=''" ?e]
    by (simp add: sae_pk_base32_decode_def Let_def)
  have skip: "?pw = decode_loop (?vs @ replicate ?e CHR ''='') 0 0 0 []"
    using decode_loop_skips [of "p @ replicate ?e CHR ''=''"] by (simp add: base32_chars_pad)
  have "length (decode_loop (?vs @ replicate ((8 - length ?vs mod 8) mod 8) CHR ''='') 0 0 0 []) =
      length ([] :: u8 list) + 5 * (length ?vs div 8) +
        (if length ?vs mod 8 = 0 then 0 else 5 - (8 - length ?vs mod 8) * 5 div 8)"
    by (rule decode_length [OF a])
  then have "length (decode_loop (?vs @ replicate ?e CHR ''='') 0 0 0 []) =
      5 * (?c div 8) + (if ?c mod 8 = 0 then 0 else 5 - (8 - ?c mod 8) * 5 div 8)"
    unfolding c by (simp only: list.size add_0)
  then have len: "length ?pw = 5 * (?c div 8) +
      (if ?c mod 8 = 0 then 0 else 5 - (8 - ?c mod 8) * 5 div 8)"
    unfolding skip .
  have "5 * ?c + 5 = 8 * (5 * (?c div 8)) + (5 * (?c mod 8) + 5)"
    using mult_div_mod_eq [of 8 ?c] by linarith
  then have "(5 * ?c + 5) div 8 = (8 * (5 * (?c div 8)) + (5 * (?c mod 8) + 5)) div 8"
    by (simp only:)
  also have "\<dots> = 5 * (?c div 8) + (5 * (?c mod 8) + 5) div 8"
    by (rule div8_split)
  also have "\<dots> \<le> length ?pw"
    unfolding len using in_bounds_arith [of "?c mod 8"] by simp
  finally show ?thesis using dec by blast
qed

text \<open>
  An input with a padding character but no alphabet character is decoded to a non-null
  buffer of length 0: the first eight counted characters are all padding, and the write
  position moves back over the five octets just written.
\<close>

lemma pad_to_eight: "(k + (8 - k mod 8) mod 8) mod 8 = (0::nat)"
proof (cases "k mod 8 = 0")
  case True
  then show ?thesis by simp
next
  case False
  have lt: "k mod 8 < 8" by simp
  with False have e: "(8 - k mod 8) mod 8 = 8 - k mod 8" by simp
  have "(k + (8 - k mod 8)) mod 8 = (k mod 8 + (8 - k mod 8)) mod 8"
    by (rule mod_add_left_eq [symmetric])
  also have "k mod 8 + (8 - k mod 8) = 8" using lt by simp
  finally show ?thesis unfolding e by simp
qed

lemma base32_decode_padding_only:
  assumes "\<forall>c\<in>set s. c \<notin> set sae_pk_base32_table" and "CHR ''='' \<in> set s"
    and "\<forall>n. os_malloc n"
  shows "sae_pk_base32_decode os_malloc s = Some []"
proof -
  let ?k = "length (base32_chars s)"
  let ?e = "(8 - ?k mod 8) mod 8"
  have "\<forall>c\<in>set (base32_chars s). c = CHR ''=''"
    using assms(1) dtable_skipped by (auto simp: base32_chars_def)
  then have chars: "base32_chars s = replicate ?k CHR ''=''"
    by (simp add: replicate_length_same)
  have "CHR ''='' \<in> set (base32_chars s)"
    using assms(2) by (simp add: base32_chars_def dtable_pad)
  then have kpos: "0 < ?k" by (cases "base32_chars s") auto
  have "(?k + ?e) mod 8 = 0" by (rule pad_to_eight)
  moreover have "0 < ?k + ?e" using kpos by simp
  ultimately have ge: "8 \<le> ?k + ?e"
    using mod_less [of "?k + ?e" 8] by (cases "?k + ?e < 8") simp_all
  have "base32_chars (s @ replicate ?e CHR ''='') = replicate ?k CHR ''='' @ replicate ?e CHR ''=''"
    using chars by (simp add: base32_chars_pad)
  also have "\<dots> = replicate (8 + (?k + ?e - 8)) CHR ''=''"
    using ge by (simp add: replicate_add [symmetric])
  also have "\<dots> = replicate 8 CHR ''='' @ replicate (?k + ?e - 8) CHR ''=''"
    by (simp only: replicate_add)
  finally have vals: "base32_chars (s @ replicate ?e CHR ''='') =
      replicate 8 CHR ''='' @ replicate (?k + ?e - 8) CHR ''=''" .
  have "length (decode_loop (s @ replicate ?e CHR ''='') 0 0 0 []) =
        length (decode_loop (replicate 8 CHR ''='' @ replicate (?k + ?e - 8) CHR ''='') 0 0 0 [])"
    using decode_loop_skips [of "s @ replicate ?e CHR ''=''" 0 0 0 "[]"] unfolding vals by simp
  also have "\<dots> = length ([] :: u8 list) + 5 - (0 + 8) * 5 div 8"
    by (rule decode_pad_run) simp_all
  finally have "decode_loop (s @ replicate ?e CHR ''='') 0 0 0 [] = []" by simp
  moreover have "length (filter (\<lambda>c. dtable c \<noteq> 0x80) s) = ?k"
    by (simp add: base32_chars_def)
  ultimately show ?thesis
    using kpos assms(3) decode_values [of s "CHR ''=''" ?e]
    by (simp add: sae_pk_base32_decode_def Let_def)
qed

section \<open>Confirm element and fingerprint: properties\<close>

text \<open>
  C9. With an AP key container bound and a kek length other than 32, 48 and 64,
  \<^verbatim>\<open>sae_write_confirm_pk\<close> returns \<open>-1\<close> and the caller's buffer is unchanged.
\<close>

theorem write_confirm_pk_invalid_kek:
  assumes "sae_tmp sae = Some tmp" and "tmp_ap_pk tmp = Some pk"
    and "length (tmp_kek tmp) \<notin> {32, 48, 64}"
  shows "sae_write_confirm_pk env sae buf = Returned (-1) buf"
  using assms by (simp add: sae_write_confirm_pk_def)

theorem write_confirm_pk_invalid_kek_witness:
  "sae_tmp (stub_sae (stub_tmp (replicate 24 9) (Some stub_pk)) False) =
     Some (stub_tmp (replicate 24 9) (Some stub_pk)) \<and>
   tmp_ap_pk (stub_tmp (replicate 24 9) (Some stub_pk)) = Some stub_pk \<and>
   length (tmp_kek (stub_tmp (replicate 24 9) (Some stub_pk))) = 24 \<and>
   sae_write_confirm_pk stub_env (stub_sae (stub_tmp (replicate 24 9) (Some stub_pk)) False)
     \<lparr>wb_size = 300, wb_data = [1, 2, 3]\<rparr> = Returned (-1) \<lparr>wb_size = 300, wb_data = [1, 2, 3]\<rparr>"
proof -
  have a: "sae_tmp (stub_sae (stub_tmp (replicate 24 9) (Some stub_pk)) False) =
     Some (stub_tmp (replicate 24 9) (Some stub_pk))"
    by (simp add: stub_sae_def)
  have b: "tmp_ap_pk (stub_tmp (replicate 24 9) (Some stub_pk)) = Some stub_pk"
    by (simp add: stub_tmp_def)
  have c: "length (tmp_kek (stub_tmp (replicate 24 9) (Some stub_pk))) = 24"
    by (simp add: stub_tmp_def)
  then have d: "length (tmp_kek (stub_tmp (replicate 24 9) (Some stub_pk))) \<notin> {32, 48, 64}"
    by simp
  from write_confirm_pk_invalid_kek [OF a b d] a b c show ?thesis by simp
qed

text \<open>
  C10. With no AP key container bound (\<^verbatim>\<open>tmp->ap_pk\<close> null), \<^verbatim>\<open>sae_write_confirm_pk\<close>
  returns 0 with the caller's buffer unchanged, whatever the collaborators are: no
  cryptographic operation has any influence on the outcome.
\<close>

theorem write_confirm_pk_no_container:
  assumes "sae_tmp sae = Some tmp" and "tmp_ap_pk tmp = None"
  shows "sae_write_confirm_pk env sae buf = Returned 0 buf"
  using assms by (simp add: sae_write_confirm_pk_def)

theorem write_confirm_pk_no_container_witness:
  "sae_tmp (stub_sae (stub_tmp (replicate 32 9) None) True) = Some (stub_tmp (replicate 32 9) None) \<and>
   tmp_ap_pk (stub_tmp (replicate 32 9) None) = None \<and>
   sae_write_confirm_pk stub_env (stub_sae (stub_tmp (replicate 32 9) None) True)
     \<lparr>wb_size = 300, wb_data = [1, 2, 3]\<rparr> = Returned 0 \<lparr>wb_size = 300, wb_data = [1, 2, 3]\<rparr>"
proof -
  have a: "sae_tmp (stub_sae (stub_tmp (replicate 32 9) None) True) =
      Some (stub_tmp (replicate 32 9) None)"
    by (simp add: stub_sae_def)
  have b: "tmp_ap_pk (stub_tmp (replicate 32 9) None) = None"
    by (simp add: stub_tmp_def)
  from write_confirm_pk_no_container [OF a b] a b show ?thesis by simp
qed

lemma region_exact: "length xs = n \<Longrightarrow> region n xs = xs"
  by (simp add: region_def)

lemma sae_hash_H_len:
  assumes "hash_len \<in> {32, 48, 64}" and "CONFIG_SHA384 env" and "CONFIG_SHA512 env"
  shows "sae_hash env hash_len data = H_len env hash_len data"
  using assms by (auto simp: sae_hash_def H_len_def)

text \<open>
  Under the agreement of the two sessions the serialization with \<open>ap = true\<close> on the AP and the
  one with \<open>ap = false\<close> on the STA are the same computation, whatever the collaborators return.
\<close>

lemma sig_data_symmetric:
  assumes "tmp_ec tmp_ap = tmp_ec tmp_sta"
    and "tmp_prime_len tmp_ap = tmp_prime_len tmp_sta"
    and "tmp_own_commit_element_ecc tmp_ap = tmp_peer_commit_element_ecc tmp_sta"
    and "tmp_peer_commit_element_ecc tmp_ap = tmp_own_commit_element_ecc tmp_sta"
    and "tmp_own_commit_scalar tmp_ap = sae_peer_commit_scalar sae_sta"
    and "sae_peer_commit_scalar sae_ap = tmp_own_commit_scalar tmp_sta"
    and "tmp_own_addr tmp_ap = tmp_peer_addr tmp_sta"
    and "tmp_peer_addr tmp_ap = tmp_own_addr tmp_sta"
  shows "sae_pk_sig_data env sae_ap tmp_ap True m pubkey =
           sae_pk_sig_data env sae_sta tmp_sta False m pubkey"
  unfolding sae_pk_sig_data_def Let_def assms if_True if_False
  by (rule refl)

text \<open>
  The order of the serialized transcript on the AP, when every serialized value already has
  its field width: both commit elements, both scalars, \<open>m\<close>, the public key, then the AP's and
  the STA's address.
\<close>

lemma sig_data_layout:
  assumes "os_alloc env (tmp_prime_len tmp * 6 + length m + length pubkey + 2 * ETH_ALEN)"
    and "crypto_ec_point_to_bin env (tmp_ec tmp) (tmp_own_commit_element_ecc tmp) = Some ele_ap"
    and "crypto_ec_point_to_bin env (tmp_ec tmp) (tmp_peer_commit_element_ecc tmp) = Some ele_sta"
    and "crypto_bignum_to_bin env (tmp_own_commit_scalar tmp) (tmp_prime_len tmp) (tmp_prime_len tmp) =
           Some sca_ap"
    and "crypto_bignum_to_bin env (sae_peer_commit_scalar sae) (tmp_prime_len tmp) (tmp_prime_len tmp) =
           Some sca_sta"
    and "length (fst ele_ap) = tmp_prime_len tmp" and "length (snd ele_ap) = tmp_prime_len tmp"
    and "length (fst ele_sta) = tmp_prime_len tmp" and "length (snd ele_sta) = tmp_prime_len tmp"
    and "length sca_ap = tmp_prime_len tmp" and "length sca_sta = tmp_prime_len tmp"
    and "length (tmp_own_addr tmp) = ETH_ALEN" and "length (tmp_peer_addr tmp) = ETH_ALEN"
  shows "sae_pk_sig_data env sae tmp True m pubkey =
           Some (transcript ele_ap ele_sta sca_ap sca_sta m pubkey
                   (tmp_own_addr tmp) (tmp_peer_addr tmp))"
  using assms
  by (cases ele_ap; cases ele_sta)
     (simp add: sae_pk_sig_data_def Let_def transcript_def region_exact)

text \<open>
  C8. When AP and STA agree on the exchanged values (each side's own commit element,
  scalar and address are the other side's peer values; same curve, prime length, \<open>m\<close>,
  public key and hash length), the transcript hash computed with \<open>ap = true\<close> on the AP
  equals the one computed with \<open>ap = false\<close> on the STA. When moreover the allocation
  succeeds, the elements and scalars serialize to \<open>prime_len\<close> octets each, the addresses
  have 6 octets and the hash length is 32, 48 or 64 with its hash compiled in, both sides
  serialize exactly \<open>ele_AP || ele_STA || sca_AP || sca_STA || M || K_AP || AP-BSSID || STA-MAC\<close>
  and both hashes are SHA-256, SHA-384 or SHA-512 (by hash length) of that buffer.
\<close>

theorem transcript_symmetry:
  assumes "tmp_ec tmp_ap = tmp_ec tmp_sta"
    and "tmp_prime_len tmp_ap = tmp_prime_len tmp_sta"
    and "tmp_own_commit_element_ecc tmp_ap = tmp_peer_commit_element_ecc tmp_sta"
    and "tmp_peer_commit_element_ecc tmp_ap = tmp_own_commit_element_ecc tmp_sta"
    and "tmp_own_commit_scalar tmp_ap = sae_peer_commit_scalar sae_sta"
    and "sae_peer_commit_scalar sae_ap = tmp_own_commit_scalar tmp_sta"
    and "tmp_own_addr tmp_ap = tmp_peer_addr tmp_sta"
    and "tmp_peer_addr tmp_ap = tmp_own_addr tmp_sta"
  shows "sae_pk_hash_sig_data env sae_ap tmp_ap hash_len True m k_ap =
           sae_pk_hash_sig_data env sae_sta tmp_sta hash_len False m k_ap \<and>
         (os_alloc env (tmp_prime_len tmp_ap * 6 + length m + length k_ap + 2 * ETH_ALEN) \<and>
          crypto_ec_point_to_bin env (tmp_ec tmp_ap) (tmp_own_commit_element_ecc tmp_ap) =
            Some ele_ap \<and>
          crypto_ec_point_to_bin env (tmp_ec tmp_sta) (tmp_own_commit_element_ecc tmp_sta) =
            Some ele_sta \<and>
          crypto_bignum_to_bin env (tmp_own_commit_scalar tmp_ap)
            (tmp_prime_len tmp_ap) (tmp_prime_len tmp_ap) = Some sca_ap \<and>
          crypto_bignum_to_bin env (tmp_own_commit_scalar tmp_sta)
            (tmp_prime_len tmp_sta) (tmp_prime_len tmp_sta) = Some sca_sta \<and>
          length (fst ele_ap) = tmp_prime_len tmp_ap \<and> length (snd ele_ap) = tmp_prime_len tmp_ap \<and>
          length (fst ele_sta) = tmp_prime_len tmp_ap \<and> length (snd ele_sta) = tmp_prime_len tmp_ap \<and>
          length sca_ap = tmp_prime_len tmp_ap \<and> length sca_sta = tmp_prime_len tmp_ap \<and>
          length (tmp_own_addr tmp_ap) = ETH_ALEN \<and> length (tmp_own_addr tmp_sta) = ETH_ALEN \<and>
          hash_len \<in> {32, 48, 64} \<and> CONFIG_SHA384 env \<and> CONFIG_SHA512 env \<longrightarrow>
            sae_pk_sig_data env sae_ap tmp_ap True m k_ap =
              Some (transcript ele_ap ele_sta sca_ap sca_sta m k_ap
                      (tmp_own_addr tmp_ap) (tmp_own_addr tmp_sta)) \<and>
            sae_pk_sig_data env sae_sta tmp_sta False m k_ap =
              Some (transcript ele_ap ele_sta sca_ap sca_sta m k_ap
                      (tmp_own_addr tmp_ap) (tmp_own_addr tmp_sta)) \<and>
            sae_pk_hash_sig_data env sae_ap tmp_ap hash_len True m k_ap =
              H_len env hash_len (transcript ele_ap ele_sta sca_ap sca_sta m k_ap
                      (tmp_own_addr tmp_ap) (tmp_own_addr tmp_sta)) \<and>
            sae_pk_hash_sig_data env sae_sta tmp_sta hash_len False m k_ap =
              H_len env hash_len (transcript ele_ap ele_sta sca_ap sca_sta m k_ap
                      (tmp_own_addr tmp_ap) (tmp_own_addr tmp_sta)))"
proof (intro conjI impI)
  note sym = sig_data_symmetric [OF assms, of env m k_ap]
  show "sae_pk_hash_sig_data env sae_ap tmp_ap hash_len True m k_ap =
        sae_pk_hash_sig_data env sae_sta tmp_sta hash_len False m k_ap"
    unfolding sae_pk_hash_sig_data_def sym ..
  assume ok: "os_alloc env (tmp_prime_len tmp_ap * 6 + length m + length k_ap + 2 * ETH_ALEN) \<and>
          crypto_ec_point_to_bin env (tmp_ec tmp_ap) (tmp_own_commit_element_ecc tmp_ap) =
            Some ele_ap \<and>
          crypto_ec_point_to_bin env (tmp_ec tmp_sta) (tmp_own_commit_element_ecc tmp_sta) =
            Some ele_sta \<and>
          crypto_bignum_to_bin env (tmp_own_commit_scalar tmp_ap)
            (tmp_prime_len tmp_ap) (tmp_prime_len tmp_ap) = Some sca_ap \<and>
          crypto_bignum_to_bin env (tmp_own_commit_scalar tmp_sta)
            (tmp_prime_len tmp_sta) (tmp_prime_len tmp_sta) = Some sca_sta \<and>
          length (fst ele_ap) = tmp_prime_len tmp_ap \<and> length (snd ele_ap) = tmp_prime_len tmp_ap \<and>
          length (fst ele_sta) = tmp_prime_len tmp_ap \<and> length (snd ele_sta) = tmp_prime_len tmp_ap \<and>
          length sca_ap = tmp_prime_len tmp_ap \<and> length sca_sta = tmp_prime_len tmp_ap \<and>
          length (tmp_own_addr tmp_ap) = ETH_ALEN \<and> length (tmp_own_addr tmp_sta) = ETH_ALEN \<and>
          hash_len \<in> {32, 48, 64} \<and> CONFIG_SHA384 env \<and> CONFIG_SHA512 env"
  have ap: "sae_pk_sig_data env sae_ap tmp_ap True m k_ap =
      Some (transcript ele_ap ele_sta sca_ap sca_sta m k_ap
              (tmp_own_addr tmp_ap) (tmp_own_addr tmp_sta))"
    using ok assms sig_data_layout [of env tmp_ap m k_ap ele_ap ele_sta sca_ap sae_ap sca_sta]
    by simp
  then show "sae_pk_sig_data env sae_ap tmp_ap True m k_ap =
      Some (transcript ele_ap ele_sta sca_ap sca_sta m k_ap
              (tmp_own_addr tmp_ap) (tmp_own_addr tmp_sta))" .
  from ap show sta: "sae_pk_sig_data env sae_sta tmp_sta False m k_ap =
      Some (transcript ele_ap ele_sta sca_ap sca_sta m k_ap
              (tmp_own_addr tmp_ap) (tmp_own_addr tmp_sta))"
    unfolding sym .
  have h: "sae_hash env hash_len x = H_len env hash_len x" for x
    using ok by (intro sae_hash_H_len) simp_all
  show "sae_pk_hash_sig_data env sae_ap tmp_ap hash_len True m k_ap =
      H_len env hash_len (transcript ele_ap ele_sta sca_ap sca_sta m k_ap
              (tmp_own_addr tmp_ap) (tmp_own_addr tmp_sta))"
    unfolding sae_pk_hash_sig_data_def ap by (simp add: h)
  show "sae_pk_hash_sig_data env sae_sta tmp_sta hash_len False m k_ap =
      H_len env hash_len (transcript ele_ap ele_sta sca_ap sca_sta m k_ap
              (tmp_own_addr tmp_ap) (tmp_own_addr tmp_sta))"
    unfolding sae_pk_hash_sig_data_def sta by (simp add: h)
qed

theorem transcript_symmetry_witness:
  "tmp_ec stub_tmp_ap = tmp_ec stub_tmp_sta \<and>
   tmp_prime_len stub_tmp_ap = tmp_prime_len stub_tmp_sta \<and>
   tmp_own_commit_element_ecc stub_tmp_ap = tmp_peer_commit_element_ecc stub_tmp_sta \<and>
   tmp_peer_commit_element_ecc stub_tmp_ap = tmp_own_commit_element_ecc stub_tmp_sta \<and>
   tmp_own_commit_scalar stub_tmp_ap = sae_peer_commit_scalar stub_sae_sta \<and>
   sae_peer_commit_scalar stub_sae_ap = tmp_own_commit_scalar stub_tmp_sta \<and>
   tmp_own_addr stub_tmp_ap = tmp_peer_addr stub_tmp_sta \<and>
   tmp_peer_addr stub_tmp_ap = tmp_own_addr stub_tmp_sta \<and>
   sae_pk_sig_data stub_env stub_sae_ap stub_tmp_ap True (replicate 16 7) (replicate 91 4) =
     Some (transcript (replicate 32 1, replicate 32 2) (replicate 32 3, replicate 32 4)
             (replicate 32 5) (replicate 32 6) (replicate 16 7) (replicate 91 4)
             [2, 0, 0, 0, 0, 1] [2, 0, 0, 0, 0, 2]) \<and>
   sae_pk_sig_data stub_env stub_sae_sta stub_tmp_sta False (replicate 16 7) (replicate 91 4) =
     Some (transcript (replicate 32 1, replicate 32 2) (replicate 32 3, replicate 32 4)
             (replicate 32 5) (replicate 32 6) (replicate 16 7) (replicate 91 4)
             [2, 0, 0, 0, 0, 1] [2, 0, 0, 0, 0, 2]) \<and>
   sae_pk_hash_sig_data stub_env stub_sae_ap stub_tmp_ap 32 True (replicate 16 7) (replicate 91 4) =
     Some (replicate 32 1) \<and>
   sae_pk_hash_sig_data stub_env stub_sae_sta stub_tmp_sta 32 False (replicate 16 7) (replicate 91 4) =
     Some (replicate 32 1)"
proof -
  let ?m = "replicate 16 7 :: u8 list" and ?k = "replicate 91 4 :: u8 list"
  let ?ea = "(replicate 32 1, replicate 32 2) :: u8 list \<times> u8 list"
  let ?es = "(replicate 32 3, replicate 32 4) :: u8 list \<times> u8 list"
  let ?sa = "replicate 32 5 :: u8 list" and ?ss = "replicate 32 6 :: u8 list"
  note d = stub_tmp_ap_def stub_tmp_sta_def stub_sae_ap_def stub_sae_sta_def
    stub_tmp_def stub_sae_def
  have a: "tmp_ec stub_tmp_ap = tmp_ec stub_tmp_sta"
    "tmp_prime_len stub_tmp_ap = tmp_prime_len stub_tmp_sta"
    "tmp_own_commit_element_ecc stub_tmp_ap = tmp_peer_commit_element_ecc stub_tmp_sta"
    "tmp_peer_commit_element_ecc stub_tmp_ap = tmp_own_commit_element_ecc stub_tmp_sta"
    "tmp_own_commit_scalar stub_tmp_ap = sae_peer_commit_scalar stub_sae_sta"
    "sae_peer_commit_scalar stub_sae_ap = tmp_own_commit_scalar stub_tmp_sta"
    "tmp_own_addr stub_tmp_ap = tmp_peer_addr stub_tmp_sta"
    "tmp_peer_addr stub_tmp_ap = tmp_own_addr stub_tmp_sta"
    by (simp_all add: d)
  have addr: "tmp_own_addr stub_tmp_ap = [2, 0, 0, 0, 0, 1]"
    "tmp_own_addr stub_tmp_sta = [2, 0, 0, 0, 0, 2]"
    by (simp_all add: d)
  have ok: "os_alloc stub_env (tmp_prime_len stub_tmp_ap * 6 + length ?m + length ?k + 2 * ETH_ALEN) \<and>
          crypto_ec_point_to_bin stub_env (tmp_ec stub_tmp_ap)
            (tmp_own_commit_element_ecc stub_tmp_ap) = Some ?ea \<and>
          crypto_ec_point_to_bin stub_env (tmp_ec stub_tmp_sta)
            (tmp_own_commit_element_ecc stub_tmp_sta) = Some ?es \<and>
          crypto_bignum_to_bin stub_env (tmp_own_commit_scalar stub_tmp_ap)
            (tmp_prime_len stub_tmp_ap) (tmp_prime_len stub_tmp_ap) = Some ?sa \<and>
          crypto_bignum_to_bin stub_env (tmp_own_commit_scalar stub_tmp_sta)
            (tmp_prime_len stub_tmp_sta) (tmp_prime_len stub_tmp_sta) = Some ?ss \<and>
          length (fst ?ea) = tmp_prime_len stub_tmp_ap \<and>
          length (snd ?ea) = tmp_prime_len stub_tmp_ap \<and>
          length (fst ?es) = tmp_prime_len stub_tmp_ap \<and>
          length (snd ?es) = tmp_prime_len stub_tmp_ap \<and>
          length ?sa = tmp_prime_len stub_tmp_ap \<and> length ?ss = tmp_prime_len stub_tmp_ap \<and>
          length (tmp_own_addr stub_tmp_ap) = ETH_ALEN \<and>
          length (tmp_own_addr stub_tmp_sta) = ETH_ALEN \<and>
          (32 :: nat) \<in> {32, 48, 64} \<and> CONFIG_SHA384 stub_env \<and> CONFIG_SHA512 stub_env"
    by (simp add: d stub_env_def alloc_ok_def ETH_ALEN_def)
  have h: "H_len stub_env 32 (transcript ?ea ?es ?sa ?ss ?m ?k [2, 0, 0, 0, 0, 1] [2, 0, 0, 0, 0, 2]) =
      Some (replicate 32 1)"
    by code_simp
  note r = transcript_symmetry [OF a, of stub_env 32 ?m ?k ?ea ?es ?sa ?ss, THEN conjunct2,
      THEN mp, OF ok, unfolded addr h]
  from a r show ?thesis by simp
qed

text \<open>
  C1 (the code at a failing input). An AP session with a bound key container, a kek of
  32 octets and an ECC group builds an inner container of 166 octets, so the element
  takes 172 octets of an empty buffer that has them. Given a buffer with a tailroom of
  10, the source compares the tailroom of \<^verbatim>\<open>elem\<close> with \<open>6 + wpabuf_len(buf)\<close>, so the
  guard passes and the puts into the caller's buffer exceed it: no \<open>-1\<close> is returned.
\<close>

theorem write_confirm_pk_small_buffer:
  "tmp_ap_pk stub_tmp_ap = Some stub_pk \<and> length (tmp_kek stub_tmp_ap) = 32 \<and>
   tmp_ec stub_tmp_ap = Some 19 \<and>
   (case sae_write_confirm_pk stub_env stub_sae_ap \<lparr>wb_size = 172, wb_data = []\<rparr> of
      Returned r b \<Rightarrow> (r, wpabuf_len b)
    | Overflows \<Rightarrow> (-1, 0)) = (0, 172) \<and>
   wpabuf_tailroom \<lparr>wb_size = 10, wb_data = []\<rparr> = 10 \<and>
   sae_write_confirm_pk stub_env stub_sae_ap \<lparr>wb_size = 10, wb_data = []\<rparr> = Overflows"
  by code_simp

text \<open>
  C2 (counterexample). With SAE-PK not enabled for the session, and likewise with an AP
  key bound to it, \<^verbatim>\<open>sae_check_confirm_pk\<close> returns 0, not \<open>-1\<close>.
\<close>

theorem check_confirm_pk_not_enabled_returns_0:
  "\<not> sae_pk_on (stub_sae (stub_tmp (replicate 32 9) None) False) \<and>
   sae_check_confirm_pk stub_env (stub_sae (stub_tmp (replicate 32 9) None) False) [] = Some 0 \<and>
   tmp_ap_pk (stub_tmp (replicate 32 9) (Some stub_pk)) \<noteq> None \<and>
   sae_check_confirm_pk stub_env (stub_sae (stub_tmp (replicate 32 9) (Some stub_pk)) True) [] = Some 0"
  by code_simp

text \<open>
  C2 (amended). For a session with temporary data: if SAE-PK is not enabled or an AP key
  is bound, the parser returns 0; otherwise, if the kek length is not 32, 48 or 64 or the
  group is not an ECC group, it returns \<open>-1\<close>.
\<close>

theorem check_confirm_pk_prechecks:
  assumes "sae_tmp sae = Some tmp"
  shows "(\<not> sae_pk_on sae \<or> tmp_ap_pk tmp \<noteq> None \<longrightarrow>
            sae_check_confirm_pk env sae ies = Some 0) \<and>
         (sae_pk_on sae \<and> tmp_ap_pk tmp = None \<and>
            (length (tmp_kek tmp) \<notin> {32, 48, 64} \<or> tmp_ec tmp = None) \<longrightarrow>
            sae_check_confirm_pk env sae ies = Some (-1))"
  using assms by (auto simp: sae_check_confirm_pk_def)

theorem check_confirm_pk_prechecks_witness:
  "sae_tmp (stub_sae stub_tmp_sta False) = Some stub_tmp_sta \<and>
   \<not> sae_pk_on (stub_sae stub_tmp_sta False) \<and>
   sae_check_confirm_pk stub_env (stub_sae stub_tmp_sta False) [] = Some 0 \<and>
   sae_tmp (stub_sae (stub_tmp (replicate 24 9) None) True) = Some (stub_tmp (replicate 24 9) None) \<and>
   sae_pk_on (stub_sae (stub_tmp (replicate 24 9) None) True) \<and>
   tmp_ap_pk (stub_tmp (replicate 24 9) None) = None \<and>
   length (tmp_kek (stub_tmp (replicate 24 9) None)) = 24 \<and>
   sae_check_confirm_pk stub_env (stub_sae (stub_tmp (replicate 24 9) None) True) [] = Some (-1)"
proof -
  have a: "sae_tmp (stub_sae stub_tmp_sta False) = Some stub_tmp_sta"
    "\<not> sae_pk_on (stub_sae stub_tmp_sta False)"
    by (simp_all add: stub_sae_def)
  have b: "sae_tmp (stub_sae (stub_tmp (replicate 24 9) None) True) =
      Some (stub_tmp (replicate 24 9) None)"
    "sae_pk_on (stub_sae (stub_tmp (replicate 24 9) None) True)"
    "tmp_ap_pk (stub_tmp (replicate 24 9) None) = None"
    "length (tmp_kek (stub_tmp (replicate 24 9) None)) = 24"
    by (simp_all add: stub_sae_def stub_tmp_def)
  from check_confirm_pk_prechecks [OF a(1), of stub_env "[]"] a(2)
  have r1: "sae_check_confirm_pk stub_env (stub_sae stub_tmp_sta False) [] = Some 0"
    by simp
  from check_confirm_pk_prechecks [OF b(1), of stub_env "[]"] b(2,3,4)
  have r2: "sae_check_confirm_pk stub_env (stub_sae (stub_tmp (replicate 24 9) None) True) [] =
      Some (-1)"
    by simp
  from a b r1 r2 show ?thesis by simp
qed






lemma length_zero_extra_bits [simp]: "length (zero_extra_bits h bits) = length h"
  by (simp add: zero_extra_bits_def Let_def)

lemma length_fingerprint_exp_loop [simp]: "length (fingerprint_exp_loop pw) = length pw"
  by (simp add: fingerprint_exp_loop_def)











lemma fp_sec_le: "fp_sec pw \<le> 5"
proof -
  have "unat (drop_bit 6 (pw ! 0)) = drop_bit 6 (unat (pw ! 0))"
    by (rule unat_drop_bit_eq)
  also have "\<dots> = unat (pw ! 0) div 64"
    by (simp only: drop_bit_eq_div) simp
  finally have "unat (drop_bit 6 (pw ! 0)) = unat (pw ! 0) div 64" .
  moreover have "unat (pw ! 0) < 2 ^ LENGTH(8)" by (rule unsigned_less)
  then have "unat (pw ! 0) < 256" by simp
  then have "unat (pw ! 0) div 64 < 4" by (intro less_mult_imp_div_less) simp
  ultimately show ?thesis by (simp add: fp_sec_def)
qed

lemma fp_bits_no_wrap:
  assumes "5 * lam + 38 \<le> SIZE_MAX"
  shows "fp_bits pw lam \<le> SIZE_MAX"
  using fp_sec_le [of pw] assms by (simp add: fp_bits_def)




text \<open>
  The bound on the comparison length that the fingerprint property assumes holds in every
  session whose password was bound by \<^verbatim>\<open>sae_pk_set_password\<close> from a string that
  \<^verbatim>\<open>sae_pk_valid_password\<close> accepts; by \<open>fp_bits_no_wrap\<close> the bit count of such a session
  fits a \<^verbatim>\<open>size_t\<close> as long as \<open>5 * lambda + 38\<close> does.
\<close>

lemma set_password_in_bounds:
  assumes "NUL \<notin> set password" and "sae_pk_valid_password password"
    and "sae_tmp sae = Some tmp" and "\<forall>n. os_alloc env n"
  shows "\<exists>pw. sae_pk_set_password env sae password =
           (0, sae\<lparr>sae_tmp := Some (tmp\<lparr>tmp_pw := Some pw,
                 tmp_lambda := length password - length password div 5\<rparr>)\<rparr>) \<and>
           pw \<noteq> [] \<and>
           (fp_bits pw (length password - length password div 5) + 7) div 8 \<le>
             fp_sec pw + length pw"
proof -
  let ?lam = "length password - length password div 5"
  from decode_password [OF assms(1,2,4)] obtain pw where
    pw: "sae_pk_base32_decode (os_alloc env) password = Some pw"
      "(5 * ?lam + 5) div 8 \<le> length pw"
    by blast
  note v = valid_password_positions [OF assms(1,2)]
  have "length password div 5 < length password" using v(1) by simp
  then have lam: "0 < ?lam" by simp
  then have "0 < (5 * ?lam + 5) div 8" by simp
  with pw(2) have ne: "pw \<noteq> []" by auto
  have "fp_bits pw ?lam + 7 = 8 * fp_sec pw + (5 * ?lam + 5)"
    using lam by (simp add: fp_bits_def fp_sec_def)
  then have "(fp_bits pw ?lam + 7) div 8 = (8 * fp_sec pw + (5 * ?lam + 5)) div 8"
    by (simp only:)
  also have "\<dots> = fp_sec pw + (5 * ?lam + 5) div 8"
    by (rule div8_split)
  finally have "(fp_bits pw ?lam + 7) div 8 = fp_sec pw + (5 * ?lam + 5) div 8" .
  with pw(2) have inb: "(fp_bits pw ?lam + 7) div 8 \<le> fp_sec pw + length pw" by simp
  have "password \<noteq> []" using v(1) by auto
  then have "sae_pk_set_password env sae password =
      (0, sae\<lparr>sae_tmp := Some (tmp\<lparr>tmp_pw := Some pw, tmp_lambda := ?lam\<rparr>)\<rparr>)"
    using assms(3) pw(1) os_strlen_no_NUL [OF assms(1)]
    by (simp add: sae_pk_set_password_def Let_def)
  with ne inb show ?thesis by blast
qed

end
